theory Spec2Isabelle
  imports Main "HOL-Library.Word" "HOL-Library.Multiset"
begin

section \<open>The Loopover board of loopover.go\<close>

text \<open>
  Go's \<open>int\<close> is taken at its width on the 64-bit platforms (amd64, arm64): a
  \<open>64 word\<close>, read as two's complement by \<open>sint\<close>. It is used wherever a value of
  the program can leave the range or wrap around: the fields of a Move, the results of
  \<open>strconv.Atoi\<close>, the arguments of NewBoard and Shuffle.

  Tile values and tile coordinates are \<open>int\<close> and \<open>nat\<close>: a board of
  \<open>w\<close> columns and \<open>h\<close> rows holds \<open>w * h\<close> machine words in memory, so
  \<open>x + y * w + 1\<close> for a tile of the board is far below \<open>2 ^ 63\<close> and the
  arithmetic on them never wraps. NewBoard below allocates the board and makes no
  board that does not fit the heap.
\<close>

type_synonym goint = "64 word"

text \<open>
  \<open>type Board [][]int\<close>: the outer slice holds the columns, \<open>b[x][y]\<close> is the tile
  in column \<open>x\<close> and row \<open>y\<close>. Every slice of the program is made with its capacity
  equal to its length and is never resliced, so \<open>cap\<close> is \<open>length\<close>.
\<close>

type_synonym Board = "int list list"

text \<open>
  How a call ends. \<open>Panicked\<close> is a Go run-time panic (an index out of range, an
  invalid argument of \<open>rand.Intn\<close>, a length that \<open>make\<close> refuses) or the fatal
  error of a runtime that is out of memory. \<open>Starved\<close> arises in the two shuffles only: the
  supply of random draws handed to the model ran out before the call was over.
  Functions that write to the board return the board as it is when the call ends,
  also when it ends in a panic.
\<close>

datatype 'a outcome = Returned 'a | Panicked | Starved

definition Width :: "Board \<Rightarrow> nat" where
  "Width b = length b"

text \<open>\<open>cap((*b)[0])\<close>: indexing an empty board panics.\<close>

definition Height :: "Board \<Rightarrow> nat option" where
  "Height b = (case b of [] \<Rightarrow> None | c # _ \<Rightarrow> Some (length c))"

definition in_board :: "Board \<Rightarrow> nat \<Rightarrow> nat \<Rightarrow> bool" where
  "in_board b x y \<longleftrightarrow> x < length b \<and> y < length (b ! x)"

text \<open>Reading \<open>board[x][y]\<close> for Go integers \<open>x\<close> and \<open>y\<close>; \<open>None\<close> is the panic.\<close>

definition tile_at :: "Board \<Rightarrow> int \<Rightarrow> int \<Rightarrow> int option" where
  "tile_at b x y =
     (if 0 \<le> x \<and> 0 \<le> y \<and> in_board b (nat x) (nat y) then Some (b ! nat x ! nat y) else None)"

text \<open>Writing \<open>board[x][y] = v\<close>, used only where the tile is on the board.\<close>

definition set_tile :: "Board \<Rightarrow> nat \<Rightarrow> nat \<Rightarrow> int \<Rightarrow> Board" where
  "set_tile b x y v = b[x := (b ! x)[y := v]]"

definition defaultTileValue :: "Board \<Rightarrow> nat \<Rightarrow> nat \<Rightarrow> int" where
  "defaultTileValue b x y = int x + int y * int (Width b) + 1"

text \<open>\<open>resetTile\<close>; \<open>None\<close> is the panic of a tile off the board.\<close>

definition resetTile :: "Board \<Rightarrow> nat \<Rightarrow> nat \<Rightarrow> Board option" where
  "resetTile b x y =
     (if in_board b x y then Some (set_tile b x y (defaultTileValue b x y)) else None)"

text \<open>
  \<open>resetTile\<close> over a sequence of tiles, in order. The flag is \<open>False\<close> when a call
  panicked, with the board as it was at that moment.
\<close>

fun resetTiles :: "(nat \<times> nat) list \<Rightarrow> Board \<Rightarrow> Board \<times> bool" where
  "resetTiles [] b = (b, True)"
| "resetTiles ((x, y) # cs) b =
     (case resetTile b x y of
        None \<Rightarrow> (b, False)
      | Some b' \<Rightarrow> resetTiles cs b')"

text \<open>
  The tiles in the order of \<open>for x := 0; x < w; x++ { for y := 0; y < h; y++ {...} }\<close>.
\<close>

definition scan_order :: "nat \<Rightarrow> nat \<Rightarrow> (nat \<times> nat) list" where
  "scan_order w h = List.product [0..<w] [0..<h]"

datatype board_error = WidthTooSmall | HeightTooSmall

text \<open>
  \<open>make([]T, n, n)\<close> is \<open>runtime.makeslice\<close>, modelled from the source of Go's
  runtime. It panics (\<open>makeslice: len out of range\<close>) when the \<open>n\<close> elements take
  more than \<open>maxAlloc\<close> bytes, which is \<open>2 ^ 48\<close> where the heap has 48 address bits
  (linux on amd64 and arm64). Otherwise the runtime takes the bytes from the heap, and
  stops with the fatal error \<open>out of memory\<close> when the heap cannot grow by that much.
  \<open>free\<close> is the number of bytes the heap can still grow by; \<open>None\<close> stands for
  both failures. The allocator's own bookkeeping (size classes, the collector) is
  left out. A slice header takes 24 bytes and an \<open>int\<close> 8.
\<close>

definition maxAlloc :: nat where
  "maxAlloc = 2 ^ 48"

definition makeslice :: "nat \<Rightarrow> nat \<Rightarrow> nat \<Rightarrow> nat option" where
  "makeslice elemSize n free =
     (if maxAlloc < elemSize * n \<or> free < elemSize * n then None
      else Some (free - elemSize * n))"

text \<open>
  The loop of NewBoard over the columns \<open>x\<close>: \<open>b[x] = make([]int, height, height)\<close>,
  then \<open>resetTile\<close> on each tile of that column.
\<close>

fun fillColumns :: "nat list \<Rightarrow> nat \<Rightarrow> Board \<Rightarrow> nat \<Rightarrow> Board \<times> bool" where
  "fillColumns [] h b free = (b, True)"
| "fillColumns (x # xs) h b free =
     (case makeslice 8 h free of
        None \<Rightarrow> (b, False)
      | Some free' \<Rightarrow>
          (case resetTiles (map (Pair x) [0..<h]) (b[x := replicate h 0]) of
             (b', True) \<Rightarrow> fillColumns xs h b' free'
           | (b', False) \<Rightarrow> (b', False)))"

text \<open>
  NewBoard. \<open>heap\<close> is a parameter: the number of bytes the runtime can still obtain
  from the system when NewBoard is called. A heap of 48 address bits never holds more
  than \<open>maxAlloc\<close> bytes.
\<close>

definition NewBoard :: "nat \<Rightarrow> goint \<Rightarrow> goint \<Rightarrow> (board_error + Board) outcome" where
  "NewBoard heap width height =
     (if sint width \<le> 1 then Returned (Inl WidthTooSmall)
      else if sint height \<le> 1 then Returned (Inl HeightTooSmall)
      else (case makeslice 24 (nat (sint width)) (min heap maxAlloc) of
              None \<Rightarrow> Panicked
            | Some free \<Rightarrow>
                (case fillColumns [0..<nat (sint width)] (nat (sint height))
                        (replicate (nat (sint width)) []) free of
                   (b, True) \<Rightarrow> Returned (Inr b)
                 | (b, False) \<Rightarrow> Panicked)))"

text \<open>
  Reset. With no column the outer loop does not run and \<open>Height\<close> is never called.
\<close>

definition Reset :: "Board \<Rightarrow> Board \<times> unit outcome" where
  "Reset b =
     (case Height b of
        None \<Rightarrow> (b, Returned ())
      | Some h \<Rightarrow>
          (case resetTiles (scan_order (Width b) h) b of
             (b', True) \<Rightarrow> (b', Returned ())
           | (b', False) \<Rightarrow> (b', Panicked)))"

text \<open>IsSolved: the first tile that differs from its default value ends the scan.\<close>

fun allDefault :: "(nat \<times> nat) list \<Rightarrow> Board \<Rightarrow> bool outcome" where
  "allDefault [] b = Returned True"
| "allDefault ((x, y) # cs) b =
     (if in_board b x y
      then (if b ! x ! y \<noteq> defaultTileValue b x y then Returned False else allDefault cs b)
      else Panicked)"

definition IsSolved :: "Board \<Rightarrow> bool outcome" where
  "IsSolved b =
     (case Height b of
        None \<Rightarrow> Returned True
      | Some h \<Rightarrow> allDefault (scan_order (Width b) h) b)"

subsection \<open>Moves\<close>

text \<open>
  \<open>type Axis bool\<close> with \<open>HorizontalAxis = true\<close> and \<open>VerticalAxis = false\<close>.
\<close>

datatype Axis = HorizontalAxis | VerticalAxis

record Move =
  Axis :: Axis
  Index :: goint
  Amount :: goint

text \<open>\<open>-a\<close> wraps: the least \<open>int\<close> is its own negation.\<close>

definition Abs :: "goint \<Rightarrow> goint" where
  "Abs a = (if 0 < sint a then a else - a)"

text \<open>
  The inner loops of MakeMove, \<open>board[x][y], p = p, board[x][y]\<close> along the tiles of a
  line in the order given. The result holds the last value of \<open>p\<close>, or \<open>None\<close> when a
  tile was off the board.
\<close>

fun carry :: "(nat \<times> nat) list \<Rightarrow> int \<Rightarrow> Board \<Rightarrow> Board \<times> int option" where
  "carry [] p b = (b, Some p)"
| "carry ((x, y) # cs) p b =
     (if in_board b x y then carry cs (b ! x ! y) (set_tile b x y p) else (b, None))"

definition row_tiles :: "Board \<Rightarrow> nat \<Rightarrow> (nat \<times> nat) list" where
  "row_tiles b i = map (\<lambda>x. (x, i)) [0..<Width b]"

definition column_tiles :: "nat \<Rightarrow> nat \<Rightarrow> (nat \<times> nat) list" where
  "column_tiles i h = map (Pair i) [0..<h]"

text \<open>
  One pass of the outer loop of MakeMove. The first statement of each of the four
  branches reads \<open>p\<close>; the inner loop then runs upwards (forward) or downwards.
\<close>

definition shiftOnce :: "Move \<Rightarrow> Board \<Rightarrow> Board \<times> bool" where
  "shiftOnce m b =
     (let i = sint (Index m); forward = (0 < sint (Amount m)) in
      if Axis m = HorizontalAxis then
        (if forward then
           (case tile_at b (int (Width b) - 1) i of
              None \<Rightarrow> (b, False)
            | Some p \<Rightarrow> (case carry (row_tiles b (nat i)) p b of (b', r) \<Rightarrow> (b', r \<noteq> None)))
         else
           (case tile_at b 0 i of
              None \<Rightarrow> (b, False)
            | Some p \<Rightarrow>
                (case carry (rev (row_tiles b (nat i))) p b of (b', r) \<Rightarrow> (b', r \<noteq> None))))
      else
        (case Height b of
           None \<Rightarrow> (b, False)
         | Some h \<Rightarrow>
             (if forward then
                (case tile_at b i (int h - 1) of
                   None \<Rightarrow> (b, False)
                 | Some p \<Rightarrow>
                     (case carry (column_tiles (nat i) h) p b of (b', r) \<Rightarrow> (b', r \<noteq> None)))
              else
                (case tile_at b i 0 of
                   None \<Rightarrow> (b, False)
                 | Some p \<Rightarrow>
                     (case carry (rev (column_tiles (nat i) h)) p b of
                        (b', r) \<Rightarrow> (b', r \<noteq> None))))))"

text \<open>\<open>for i := 0; i < amnt; i++\<close>: the body \<open>n\<close> times, stopping at a panic.\<close>

fun repeatBody :: "nat \<Rightarrow> (Board \<Rightarrow> Board \<times> bool) \<Rightarrow> Board \<Rightarrow> Board \<times> bool" where
  "repeatBody 0 f b = (b, True)"
| "repeatBody (Suc n) f b = (case f b of (b', True) \<Rightarrow> repeatBody n f b' | (b', False) \<Rightarrow> (b', False))"

definition MakeMove :: "Board \<Rightarrow> Move \<Rightarrow> Board \<times> goint outcome" where
  "MakeMove b m =
     (let amnt = Abs (Amount m) in
      case repeatBody (nat (sint amnt)) (shiftOnce m) b of
        (b', True) \<Rightarrow> (b', Returned amnt)
      | (b', False) \<Rightarrow> (b', Panicked))"

subsection \<open>The shuffles\<close>

text \<open>
  The process-wide random source of \<open>math/rand\<close> is a parameter of the model: the list of
  the raw draws still to come, threaded through the calls. \<open>rand.Intn(n)\<close> panics for
  \<open>n \<le> 0\<close>; otherwise it takes the next raw draw \<open>r\<close> and returns \<open>r mod n\<close>, so that
  every value of \<open>[0, n)\<close> can be returned and no other. With no draw left the call is
  \<open>Starved\<close>: a finite list stands for a run that is still waiting for its random numbers.
\<close>

definition Intn :: "int \<Rightarrow> nat list \<Rightarrow> nat outcome \<times> nat list" where
  "Intn n rs =
     (if n \<le> 0 then (Panicked, rs)
      else (case rs of [] \<Rightarrow> (Starved, []) | r # rs' \<Rightarrow> (Returned (r mod nat n), rs')))"

text \<open>
  The inner loop of FastShuffle,
  \<open>for x2, y2 = x1, y1; x1 == x2 || y1 == y2; { x2 = rand.Intn(w); y2 = rand.Intn(h) }\<close>.
  Its condition holds on entry, so the body runs at least once.
\<close>

function pickOther :: "nat \<Rightarrow> nat \<Rightarrow> nat \<Rightarrow> nat \<Rightarrow> nat list \<Rightarrow> (nat \<times> nat) outcome \<times> nat list"
  where
  "pickOther w h x1 y1 rs =
     (case Intn (int w) rs of
        (Returned x2, rs1) \<Rightarrow>
          (case Intn (int h) rs1 of
             (Returned y2, rs2) \<Rightarrow>
               (if x1 = x2 \<or> y1 = y2 then pickOther w h x1 y1 rs2 else (Returned (x2, y2), rs2))
           | (Panicked, rs2) \<Rightarrow> (Panicked, rs2)
           | (Starved, rs2) \<Rightarrow> (Starved, rs2))
      | (Panicked, rs1) \<Rightarrow> (Panicked, rs1)
      | (Starved, rs1) \<Rightarrow> (Starved, rs1))"
  by pat_completeness auto
termination
  by (relation "measure (\<lambda>(w, h, x1, y1, rs). length rs)")
     (auto simp: Intn_def split: if_splits list.splits)

declare pickOther.simps [simp del]

text \<open>
  \<open>board[x1][y1], board[x2][y2] = board[x2][y2], board[x1][y1]\<close>: both tiles are read
  before either is written.
\<close>

definition swapTiles :: "Board \<Rightarrow> nat \<Rightarrow> nat \<Rightarrow> nat \<Rightarrow> nat \<Rightarrow> Board option" where
  "swapTiles b x1 y1 x2 y2 =
     (if in_board b x2 y2 \<and> in_board b x1 y1
      then Some (set_tile (set_tile b x1 y1 (b ! x2 ! y2)) x2 y2 (b ! x1 ! y1))
      else None)"

fun swapEach ::
  "(nat \<times> nat) list \<Rightarrow> nat \<Rightarrow> nat \<Rightarrow> Board \<Rightarrow> nat list \<Rightarrow> Board \<times> nat list \<times> unit outcome"
  where
  "swapEach [] w h b rs = (b, rs, Returned ())"
| "swapEach ((x1, y1) # cs) w h b rs =
     (case pickOther w h x1 y1 rs of
        (Returned (x2, y2), rs') \<Rightarrow>
          (case swapTiles b x1 y1 x2 y2 of
             None \<Rightarrow> (b, rs', Panicked)
           | Some b' \<Rightarrow> swapEach cs w h b' rs')
      | (Panicked, rs') \<Rightarrow> (b, rs', Panicked)
      | (Starved, rs') \<Rightarrow> (b, rs', Starved))"

definition FastShuffle :: "Board \<Rightarrow> nat list \<Rightarrow> Board \<times> nat list \<times> unit outcome" where
  "FastShuffle b rs =
     (case Height b of
        None \<Rightarrow> (b, rs, Returned ())
      | Some h \<Rightarrow> swapEach (scan_order (Width b) h) (Width b) h b rs)"

text \<open>
  \<open>rand.Intn(n)\<close> followed by the rest of the loop body; a panic or a starved call ends
  the body with the board as it is.
\<close>

definition withIntn ::
  "int \<Rightarrow> nat list \<Rightarrow> Board \<Rightarrow> (nat \<Rightarrow> nat list \<Rightarrow> Board \<times> nat list \<times> 'a outcome)
   \<Rightarrow> Board \<times> nat list \<times> 'a outcome" where
  "withIntn n rs b k =
     (case Intn n rs of
        (Returned v, rs') \<Rightarrow> k v rs'
      | (Panicked, rs') \<Rightarrow> (b, rs', Panicked)
      | (Starved, rs') \<Rightarrow> (b, rs', Starved))"

text \<open>
  The loop \<open>for moves = 0; moves < iterations; moves++\<close> of Shuffle with \<open>n\<close> passes
  still to run. In the Move literal \<open>Index\<close> is drawn before \<open>Amount\<close>.
\<close>

fun shuffleLoop :: "nat \<Rightarrow> goint \<Rightarrow> Board \<Rightarrow> nat list \<Rightarrow> Board \<times> nat list \<times> goint outcome"
  where
  "shuffleLoop 0 moves b rs = (b, rs, Returned moves)"
| "shuffleLoop (Suc n) moves b rs =
     withIntn 2 rs b (\<lambda>coin rs1.
       (case (if coin = 0 then Some (HorizontalAxis, Width b)
              else map_option (Pair VerticalAxis) (Height b)) of
          None \<Rightarrow> (b, rs1, Panicked)
        | Some (a, mx) \<Rightarrow>
            withIntn (int mx) rs1 b (\<lambda>i rs2.
              withIntn (int mx - 1) rs2 b (\<lambda>r rs3.
                (case MakeMove b \<lparr>Axis = a, Index = of_nat i, Amount = of_nat r + 1\<rparr> of
                   (b', Returned _) \<Rightarrow> shuffleLoop n (moves + 1) b' rs3
                 | (b', Panicked) \<Rightarrow> (b', rs3, Panicked)
                 | (b', Starved) \<Rightarrow> (b', rs3, Starved))))))"

text \<open>
  Shuffle. Only \<open>iterations == 0\<close> is replaced by \<open>Width + Height\<close>; the loop runs
  while \<open>moves < iterations\<close>, so not at all for a negative \<open>iterations\<close>.
\<close>

definition Shuffle :: "Board \<Rightarrow> goint \<Rightarrow> nat list \<Rightarrow> Board \<times> nat list \<times> goint outcome" where
  "Shuffle b iterations rs =
     (if iterations = 0 then
        (case Height b of
           None \<Rightarrow> (b, rs, Panicked)
         | Some h \<Rightarrow> shuffleLoop (nat (sint (of_nat (Width b) + of_nat h :: goint))) 0 b rs)
      else shuffleLoop (nat (sint iterations)) 0 b rs)"

subsection \<open>Numbers in text\<close>

text \<open>
  A Go string is a sequence of bytes: a \<open>string\<close>, each \<open>char\<close> one byte.

  \<open>strconv.Atoi\<close> belongs to Go's standard library; it is modelled from its
  documentation and source: an optional sign \<open>+\<close> or \<open>-\<close>, then one or more decimal
  digits and nothing else, and the value has to fit the 64 bits of \<open>int\<close>. \<open>None\<close>
  stands for its error (of syntax or of range).
\<close>

definition digit :: "char \<Rightarrow> nat option" where
  "digit c = (let n = of_char c in if (48::nat) \<le> n \<and> n \<le> 57 then Some (n - 48) else None)"

fun digits :: "nat \<Rightarrow> string \<Rightarrow> nat option" where
  "digits acc [] = Some acc"
| "digits acc (c # cs) = (case digit c of None \<Rightarrow> None | Some d \<Rightarrow> digits (acc * 10 + d) cs)"

definition Atoi :: "string \<Rightarrow> goint option" where
  "Atoi s =
     (case s of
        [] \<Rightarrow> None
      | c # cs \<Rightarrow>
          (let neg = (c = CHR ''-'');
               ds = (if c = CHR ''-'' \<or> c = CHR ''+'' then cs else s)
           in if ds = [] then None
              else (case digits 0 ds of
                      None \<Rightarrow> None
                    | Some n \<Rightarrow>
                        if neg then (if n \<le> 2 ^ 63 then Some (- of_nat n) else None)
                        else (if n < 2 ^ 63 then Some (of_nat n) else None))))"

subsection \<open>ParseTwoDimensions\<close>

text \<open>
  \<open>strings.IndexAny(s, chars)\<close> for ASCII \<open>chars\<close>: the index of the first byte of \<open>s\<close>
  that is one of \<open>chars\<close>; \<open>None\<close> for Go's \<open>-1\<close>.
\<close>

fun IndexAny :: "string \<Rightarrow> string \<Rightarrow> nat option" where
  "IndexAny [] chars = None"
| "IndexAny (c # cs) chars = (if c \<in> set chars then Some 0 else map_option Suc (IndexAny cs chars))"

text \<open>
  The errors of ParseTwoDimensions, one for each place that returns one:
  \<open>"empty input"\<close>, \<open>"... doesn't seem to be a valid dimension"\<close>, and the error of
  \<open>Atoi\<close> for the width and for the height. The integers returned next to an error are
  left out.
\<close>

datatype dimension_error = EmptyDimensions | NoSeparator | InvalidWidth | InvalidHeight

definition ParseTwoDimensions :: "string \<Rightarrow> dimension_error + goint \<times> goint" where
  "ParseTwoDimensions input =
     (if input = [] then Inl EmptyDimensions
      else (case IndexAny input ''xX*'' of
              None \<Rightarrow> Inl NoSeparator
            | Some i \<Rightarrow>
                (case Atoi (take i input) of
                   None \<Rightarrow> Inl InvalidWidth
                 | Some width \<Rightarrow>
                     (case Atoi (drop (i + 1) input) of
                        None \<Rightarrow> Inl InvalidHeight
                      | Some height \<Rightarrow> Inr (width, height)))))"

subsection \<open>ParseMove\<close>

text \<open>
  \<open>for i, c := range input\<close> and \<open>[]rune(input)\<close> decode the bytes as UTF-8. The
  decoder is the one of Go's package \<open>unicode/utf8\<close>: a code point and the number of
  bytes it takes; a byte that starts no valid encoding is the code point \<open>U+FFFD\<close> of
  width 1. Code points are natural numbers.
\<close>

definition RuneError :: nat where
  "RuneError = 0xFFFD"

text \<open>For a leading byte: the length of the encoding and the range of the second byte.\<close>

definition leading :: "nat \<Rightarrow> (nat \<times> nat \<times> nat) option" where
  "leading s0 =
     (if 0xC2 \<le> s0 \<and> s0 \<le> 0xDF then Some (2, 0x80, 0xBF)
      else if s0 = 0xE0 then Some (3, 0xA0, 0xBF)
      else if s0 = 0xED then Some (3, 0x80, 0x9F)
      else if 0xE1 \<le> s0 \<and> s0 \<le> 0xEF then Some (3, 0x80, 0xBF)
      else if s0 = 0xF0 then Some (4, 0x90, 0xBF)
      else if 0xF1 \<le> s0 \<and> s0 \<le> 0xF3 then Some (4, 0x80, 0xBF)
      else if s0 = 0xF4 then Some (4, 0x80, 0x8F)
      else None)"

definition decodeRune :: "nat list \<Rightarrow> nat \<times> nat" where
  "decodeRune bs =
     (case bs of
        [] \<Rightarrow> (RuneError, 0)
      | s0 # _ \<Rightarrow>
          if s0 < 0x80 then (s0, 1)
          else (case leading s0 of
                  None \<Rightarrow> (RuneError, 1)
                | Some (sz, lo, hi) \<Rightarrow>
                    if length bs < sz then (RuneError, 1)
                    else if bs ! 1 < lo \<or> hi < bs ! 1 then (RuneError, 1)
                    else if sz \<le> 2 then ((s0 mod 32) * 64 + bs ! 1 mod 64, 2)
                    else if bs ! 2 < 0x80 \<or> 0xBF < bs ! 2 then (RuneError, 1)
                    else if sz \<le> 3
                      then ((s0 mod 16) * 4096 + (bs ! 1 mod 64) * 64 + bs ! 2 mod 64, 3)
                    else if bs ! 3 < 0x80 \<or> 0xBF < bs ! 3 then (RuneError, 1)
                    else ((s0 mod 8) * 262144 + (bs ! 1 mod 64) * 4096 + (bs ! 2 mod 64) * 64
                          + bs ! 3 mod 64, 4)))"

text \<open>
  The pairs \<open>(i, c)\<close> of \<open>for i, c := range input\<close>: \<open>i\<close> is the byte offset at which
  the code point \<open>c\<close> starts. \<open>skip\<close> counts the bytes still belonging to the code
  point decoded last.
\<close>

fun rangeString :: "nat \<Rightarrow> nat \<Rightarrow> nat list \<Rightarrow> (nat \<times> nat) list" where
  "rangeString i skip [] = []"
| "rangeString i skip (c # cs) =
     (if 0 < skip then rangeString (i + 1) (skip - 1) cs
      else (case decodeRune (c # cs) of (r, n) \<Rightarrow> (i, r) # rangeString (i + 1) (n - 1) cs))"

text \<open>
  \<open>unicode.IsLetter\<close>. Up to \<open>U+00FF\<close> it reads the Latin-1 property table of package
  \<open>unicode\<close>, written out here. Above, it searches the letter tables of that package;
  they are not part of this program and are a parameter, \<open>beyond\<close>.
\<close>

definition latin1Letter :: "nat \<Rightarrow> bool" where
  "latin1Letter r \<longleftrightarrow>
     (0x41 \<le> r \<and> r \<le> 0x5A) \<or> (0x61 \<le> r \<and> r \<le> 0x7A) \<or> r = 0xAA \<or> r = 0xB5 \<or> r = 0xBA \<or>
     (0xC0 \<le> r \<and> r \<le> 0xD6) \<or> (0xD8 \<le> r \<and> r \<le> 0xF6) \<or> (0xF8 \<le> r \<and> r \<le> 0xFF)"

definition IsLetter :: "(nat \<Rightarrow> bool) \<Rightarrow> nat \<Rightarrow> bool" where
  "IsLetter beyond r = (if r \<le> 0xFF then latin1Letter r else beyond r)"

text \<open>
  \<open>switch c := []rune(input)[ai]; unicode.ToLower(c)\<close> with the cases \<open>'r'\<close>, \<open>'c'\<close>
  and \<open>default\<close>. Of all code points only \<open>R\<close> and \<open>r\<close> have the lower case \<open>r\<close>, and
  only \<open>C\<close> and \<open>c\<close> the lower case \<open>c\<close>.
\<close>

definition axisOf :: "nat \<Rightarrow> Axis option" where
  "axisOf c =
     (if c = 0x52 \<or> c = 0x72 then Some HorizontalAxis
      else if c = 0x43 \<or> c = 0x63 then Some VerticalAxis
      else None)"

text \<open>
  The errors of ParseMove, one for each \<open>fmt.Errorf\<close> in the order of the source:
  \<open>"empty input"\<close>, \<open>"no move character ..."\<close>, \<open>"invalid move character ..."\<close>,
  \<open>"missing amount ..."\<close> (for the amount), \<open>"invalid number for amount ..."\<close>,
  \<open>"amount cannot be 0 ..."\<close>, \<open>"missing amount ..."\<close> (the same words, for the index),
  \<open>"invalid number for index ..."\<close>, \<open>"amount must be greater or equal to 0 ..."\<close>
  (for the index) and \<open>"amount must be lesser to ..."\<close> (for the index).
\<close>

datatype move_error =
  EmptyInput | MissingAxis | InvalidAxis | MissingAmount | InvalidAmount | ZeroAmount
  | MissingIndex | InvalidIndex | IndexBelowZero | IndexTooLarge

text \<open>\<open>board.Width()\<close> for the horizontal axis, \<open>board.Height()\<close> for the vertical.\<close>

definition dimension :: "Board \<Rightarrow> Axis \<Rightarrow> goint option" where
  "dimension b a =
     (case a of
        HorizontalAxis \<Rightarrow> Some (of_nat (Width b))
      | VerticalAxis \<Rightarrow> map_option of_nat (Height b))"

text \<open>The end of ParseMove, from \<open>if reverseIndex\<close> on.\<close>

definition checkIndex :: "Board \<Rightarrow> Axis \<Rightarrow> goint \<Rightarrow> goint \<Rightarrow> bool \<Rightarrow> (move_error + Move) outcome"
  where
  "checkIndex b axis amount index reverseIndex =
     (case (if reverseIndex then map_option (\<lambda>d. d - 1 - index) (dimension b axis)
            else Some index) of
        None \<Rightarrow> Panicked
      | Some index' \<Rightarrow>
          if sint index' < 0 then Returned (Inl IndexBelowZero)
          else (case dimension b axis of
                  None \<Rightarrow> Panicked
                | Some mx \<Rightarrow>
                    if sint mx \<le> sint index' then Returned (Inl IndexTooLarge)
                    else Returned (Inr \<lparr>Axis = axis, Index = index', Amount = amount\<rparr>)))"

definition ParseMove :: "(nat \<Rightarrow> bool) \<Rightarrow> string \<Rightarrow> Board \<Rightarrow> (move_error + Move) outcome" where
  "ParseMove beyond input board =
     (if input = [] then Returned (Inl EmptyInput)
      else
        (let runes = rangeString 0 0 (map of_char input) in
         case find (\<lambda>(i, c). IsLetter beyond c) runes of
           None \<Rightarrow> Returned (Inl MissingAxis)
         | Some (ai, _) \<Rightarrow>
             if length runes \<le> ai then Panicked
             else
               (case axisOf (snd (runes ! ai)) of
                  None \<Rightarrow> Returned (Inl InvalidAxis)
                | Some axis \<Rightarrow>
                    if take ai input = [] then Returned (Inl MissingAmount)
                    else
                      (case Atoi (take ai input) of
                         None \<Rightarrow> Returned (Inl InvalidAmount)
                       | Some amount \<Rightarrow>
                           if amount = 0 then Returned (Inl ZeroAmount)
                           else if drop (ai + 1) input = [] then Returned (Inl MissingIndex)
                           else
                             (let reverseIndex = (last input = CHR 0x27);
                                  indexStr = (if reverseIndex then butlast (drop (ai + 1) input)
                                              else drop (ai + 1) input)
                              in case Atoi indexStr of
                                   None \<Rightarrow> Returned (Inl InvalidIndex)
                                 | Some index \<Rightarrow>
                                     checkIndex board axis amount index reverseIndex)))))"

section \<open>Notions used to state the properties\<close>

text \<open>
  A board is rectangular when it has \<open>w\<close> columns of \<open>h\<close> tiles each. NewBoard makes
  such boards and no function of the program changes the length of a slice.
\<close>

definition rect :: "nat \<Rightarrow> nat \<Rightarrow> Board \<Rightarrow> bool" where
  "rect w h b \<longleftrightarrow> length b = w \<and> (\<forall>x < w. length (b ! x) = h)"

text \<open>The solved board in closed form, column by column.\<close>

definition default_column :: "nat \<Rightarrow> nat \<Rightarrow> nat \<Rightarrow> int list" where
  "default_column w h x = map (\<lambda>y. int x + int y * int w + 1) [0..<h]"

definition solved :: "nat \<Rightarrow> nat \<Rightarrow> Board" where
  "solved w h = map (default_column w h) [0..<w]"

text \<open>
  The board of \<open>w\<close> columns and \<open>h\<close> rows fits a heap that can grow by \<open>heap\<close> bytes:
  \<open>w\<close> slice headers and \<open>w\<close> columns of \<open>h\<close> integers.
\<close>

definition fits :: "nat \<Rightarrow> nat \<Rightarrow> nat \<Rightarrow> bool" where
  "fits heap w h \<longleftrightarrow> 24 * w + w * (8 * h) \<le> min heap maxAlloc"

text \<open>Tiles as pairs \<open>(x, y)\<close>: being on the board, and the value held.\<close>

definition on_board :: "Board \<Rightarrow> nat \<times> nat \<Rightarrow> bool" where
  "on_board b c = in_board b (fst c) (snd c)"

definition val :: "Board \<Rightarrow> nat \<times> nat \<Rightarrow> int" where
  "val b c = b ! fst c ! snd c"

text \<open>
  A line is a non-empty sequence of distinct tiles of the board. The forward unit
  rotation of a line is the upward inner loop of MakeMove started with the value of
  the last tile, the backward one the downward loop started with the value of the
  first tile.
\<close>

definition line :: "Board \<Rightarrow> (nat \<times> nat) list \<Rightarrow> bool" where
  "line b ln \<longleftrightarrow> ln \<noteq> [] \<and> distinct ln \<and> (\<forall>c \<in> set ln. on_board b c)"

definition fwd :: "(nat \<times> nat) list \<Rightarrow> Board \<Rightarrow> Board" where
  "fwd ln b = fst (carry ln (val b (last ln)) b)"

definition bwd :: "(nat \<times> nat) list \<Rightarrow> Board \<Rightarrow> Board" where
  "bwd ln b = fst (carry (rev ln) (val b (hd ln)) b)"

text \<open>
  The line a Move addresses on a board of \<open>w\<close> columns and \<open>h\<close> rows: row \<open>Index\<close> from
  left to right, or column \<open>Index\<close> from top to bottom. The Move is \<open>movable\<close> when that
  line is on the board, which for a row bounds \<open>Index\<close> by the height and for a column
  by the width.
\<close>

definition target_line :: "nat \<Rightarrow> nat \<Rightarrow> Move \<Rightarrow> (nat \<times> nat) list" where
  "target_line w h m =
     (if Axis m = HorizontalAxis then map (\<lambda>x. (x, nat (sint (Index m)))) [0..<w]
      else map (Pair (nat (sint (Index m)))) [0..<h])"

definition movable :: "nat \<Rightarrow> nat \<Rightarrow> Move \<Rightarrow> bool" where
  "movable w h m \<longleftrightarrow>
     0 \<le> sint (Index m) \<and> 0 < w \<and> 0 < h \<and>
     (if Axis m = HorizontalAxis then nat (sint (Index m)) < h else nat (sint (Index m)) < w)"

definition unit_shift :: "nat \<Rightarrow> nat \<Rightarrow> Move \<Rightarrow> Board \<Rightarrow> Board" where
  "unit_shift w h m =
     (if 0 < sint (Amount m) then fwd (target_line w h m) else bwd (target_line w h m))"

text \<open>The number of passes of the outer loop of MakeMove.\<close>

definition steps :: "Move \<Rightarrow> nat" where
  "steps m = nat (sint (Abs (Amount m)))"

text \<open>
  The invariant of the board: rectangular, and each of \<open>1, \<dots>, w * h\<close> on exactly one
  tile.
\<close>

definition permuted :: "nat \<Rightarrow> nat \<Rightarrow> Board \<Rightarrow> bool" where
  "permuted w h b \<longleftrightarrow> rect w h b \<and> mset (concat b) = mset [1..int (w * h)]"

definition tile_numbers :: "nat \<Rightarrow> nat \<Rightarrow> nat list" where
  "tile_numbers w h = map (\<lambda>(x, y). x + y * w + 1) (List.product [0..<w] [0..<h])"

text \<open>
  A letter table for the examples whose inputs hold no code point above \<open>U+00FF\<close>,
  so that the table is never consulted.
\<close>

definition noLettersBeyond :: "nat \<Rightarrow> bool" where
  "noLettersBeyond r \<longleftrightarrow> False"

section \<open>Creating the board\<close>

lemma rect_in_board: "rect w h b \<Longrightarrow> in_board b x y \<longleftrightarrow> x < w \<and> y < h"
  by (auto simp: rect_def in_board_def)

lemma rect_set_tile: "rect w h b \<Longrightarrow> rect w h (set_tile b x y v)"
  by (cases "x < length b") (auto simp: rect_def set_tile_def nth_list_update)

lemma nth_set_tile:
  "in_board b x y \<Longrightarrow> in_board b x' y' \<Longrightarrow>
   set_tile b x y v ! x' ! y' = (if x' = x \<and> y' = y then v else b ! x' ! y')"
  by (auto simp: set_tile_def in_board_def nth_list_update)

lemma in_board_set_tile [simp]: "in_board (set_tile b x y v) x' y' = in_board b x' y'"
  by (cases "x' = x") (auto simp: set_tile_def in_board_def nth_list_update)

lemma shape_set_tile [simp]: "map length (set_tile b x y v) = map length b"
  by (cases "x < length b") (auto simp: set_tile_def nth_list_update intro!: nth_equalityI)

lemma in_board_shape: "map length b' = map length b \<Longrightarrow> in_board b' x y = in_board b x y"
  by (metis in_board_def length_map nth_map)

lemma board_eqI:
  assumes "map length b1 = map length b2"
    and "\<And>x y. in_board b1 x y \<Longrightarrow> b1 ! x ! y = b2 ! x ! y"
  shows "b1 = b2"
proof (rule nth_equalityI)
  show len: "length b1 = length b2" using assms(1) by (metis length_map)
  fix x assume x: "x < length b1"
  have "map length b1 ! x = map length b2 ! x"
    using assms(1) by simp
  then have lx: "length (b1 ! x) = length (b2 ! x)"
    using x len by simp
  show "b1 ! x = b2 ! x"
    by (rule nth_equalityI [OF lx]) (simp add: assms(2) in_board_def x)
qed

lemma Width_set_tile [simp]: "Width (set_tile b x y v) = Width b"
  by (simp add: Width_def set_tile_def)

lemma defaultTileValue_set_tile [simp]:
  "defaultTileValue (set_tile b x y v) x' y' = defaultTileValue b x' y'"
  by (simp add: defaultTileValue_def)

lemma resetTiles_spec:
  "\<forall>(x, y) \<in> set cs. in_board b x y \<Longrightarrow>
   \<exists>b'. resetTiles cs b = (b', True) \<and> map length b' = map length b \<and>
        (\<forall>x y. in_board b x y \<longrightarrow>
           b' ! x ! y = (if (x, y) \<in> set cs then defaultTileValue b x y else b ! x ! y))"
proof (induction cs arbitrary: b)
  case Nil
  then show ?case by simp
next
  case (Cons c cs)
  obtain x y where c: "c = (x, y)" by (cases c)
  from Cons.prems c have xy: "in_board b x y" by simp
  let ?b = "set_tile b x y (defaultTileValue b x y)"
  from Cons.prems have "\<forall>(x, y) \<in> set cs. in_board ?b x y" by auto
  from Cons.IH [OF this] obtain b' where
    run: "resetTiles cs ?b = (b', True)" and shape: "map length b' = map length ?b" and
    tiles: "\<forall>x' y'. in_board ?b x' y' \<longrightarrow>
           b' ! x' ! y' = (if (x', y') \<in> set cs then defaultTileValue ?b x' y' else ?b ! x' ! y')"
    by (elim exE conjE) (rule that)
  have "resetTiles (c # cs) b = (b', True)"
    using xy run c by (simp add: resetTile_def)
  moreover have "map length b' = map length b"
    using shape by simp
  moreover have "b' ! x' ! y' =
      (if (x', y') \<in> set (c # cs) then defaultTileValue b x' y' else b ! x' ! y')"
    if "in_board b x' y'" for x' y'
    using tiles that xy c by (simp add: nth_set_tile)
  ultimately show ?case by blast
qed

lemma resetTiles_column:
  assumes "x < length b"
  shows "resetTiles (map (Pair x) [0..<h]) (b[x := replicate h 0])
         = (b[x := default_column (length b) h x], True)"
proof -
  let ?b = "b[x := replicate h 0]"
  let ?cs = "map (Pair x) [0..<h]"
  have nth_x: "?b ! x = replicate h 0"
    using assms by simp
  have "in_board ?b x' y'" if "(x', y') \<in> set ?cs" for x' y'
    using that assms nth_x by (auto simp: in_board_def)
  then have "\<forall>(x, y) \<in> set ?cs. in_board ?b x y"
    by blast
  from resetTiles_spec [OF this] obtain b' where
    run: "resetTiles ?cs ?b = (b', True)" and shape: "map length b' = map length ?b" and
    tiles: "\<forall>x' y. in_board ?b x' y \<longrightarrow>
           b' ! x' ! y = (if (x', y) \<in> set ?cs then defaultTileValue ?b x' y else ?b ! x' ! y)"
    by (elim exE conjE) (rule that)
  have "b' = b[x := default_column (length b) h x]"
  proof (rule board_eqI)
    show "map length b' = map length (b[x := default_column (length b) h x])"
      using shape by (simp add: map_update default_column_def)
    fix x' y assume "in_board b' x' y"
    then have ib: "in_board ?b x' y" using in_board_shape [OF shape] by simp
    then have eq: "b' ! x' ! y = (if (x', y) \<in> set ?cs then defaultTileValue ?b x' y else ?b ! x' ! y)"
      using tiles by blast
    show "b' ! x' ! y = b[x := default_column (length b) h x] ! x' ! y"
    proof (cases "x' = x")
      case True
      with ib nth_x have "y < h" by (simp add: in_board_def)
      then show ?thesis
        using True assms eq by (simp add: default_column_def defaultTileValue_def Width_def)
    next
      case False
      then have "(x', y) \<notin> set ?cs" by auto
      then show ?thesis using False eq by simp
    qed
  qed
  then show ?thesis using run by simp
qed

lemma fillColumns_fold:
  "\<forall>x \<in> set xs. x < length b \<Longrightarrow> length xs * (8 * h) \<le> free \<Longrightarrow> 8 * h \<le> maxAlloc \<Longrightarrow>
   fillColumns xs h b free
   = (fold (\<lambda>x b. b[x := default_column (length b) h x]) xs b, True)"
proof (induction xs arbitrary: b free)
  case Nil
  then show ?case by simp
next
  case (Cons x xs)
  from Cons.prems have m: "makeslice 8 h free = Some (free - 8 * h)"
    by (simp add: makeslice_def)
  let ?b = "b[x := default_column (length b) h x]"
  have r: "resetTiles (map (Pair x) [0..<h]) (b[x := replicate h 0]) = (?b, True)"
    using Cons.prems(1) by (simp add: resetTiles_column)
  have "fillColumns xs h ?b (free - 8 * h)
        = (fold (\<lambda>x b. b[x := default_column (length b) h x]) xs ?b, True)"
    using Cons.prems by (intro Cons.IH) simp_all
  then show ?case using m r by simp
qed

lemma fillColumns_short:
  "xs \<noteq> [] \<Longrightarrow> \<forall>x \<in> set xs. x < length b \<Longrightarrow>
   free < length xs * (8 * h) \<or> maxAlloc < 8 * h \<Longrightarrow>
   snd (fillColumns xs h b free) = False"
proof (induction xs arbitrary: b free)
  case Nil
  then show ?case by simp
next
  case (Cons x xs)
  show ?case
  proof (cases "makeslice 8 h free")
    case None
    then show ?thesis by simp
  next
    case (Some free')
    then have f: "free' = free - 8 * h" "8 * h \<le> free" "8 * h \<le> maxAlloc"
      by (auto simp: makeslice_def split: if_splits)
    let ?b = "b[x := default_column (length b) h x]"
    have r: "resetTiles (map (Pair x) [0..<h]) (b[x := replicate h 0]) = (?b, True)"
      using Cons.prems(2) by (simp add: resetTiles_column)
    from Cons.prems(3) f have short: "free' < length xs * (8 * h)" by simp
    then have "xs \<noteq> []" by auto
    then have "snd (fillColumns xs h ?b free') = False"
      using Cons.prems(2) short by (intro Cons.IH) simp_all
    then show ?thesis using Some r by simp
  qed
qed

lemma length_fold_update:
  "length (fold (\<lambda>x b. b[x := default_column (length b) h x]) xs b) = length b"
  by (induction xs arbitrary: b) simp_all

lemma nth_fold_update:
  "j < length b \<Longrightarrow>
   fold (\<lambda>x b. b[x := default_column (length b) h x]) xs b ! j
   = (if j \<in> set xs then default_column (length b) h j else b ! j)"
  by (induction xs arbitrary: b) (auto simp: nth_list_update)

lemma Width_solved [simp]: "Width (solved w h) = w"
  by (simp add: Width_def solved_def)

lemma Height_solved [simp]: "0 < w \<Longrightarrow> Height (solved w h) = Some h"
  by (cases w) (simp_all add: Height_def solved_def default_column_def upt_conv_Cons del: upt_Suc)

lemma in_board_solved [simp]: "in_board (solved w h) x y \<longleftrightarrow> x < w \<and> y < h"
  by (auto simp: in_board_def solved_def default_column_def)

lemma nth_solved [simp]: "x < w \<Longrightarrow> y < h \<Longrightarrow> solved w h ! x ! y = int x + int y * int w + 1"
  by (simp add: solved_def default_column_def)

lemma fillColumns_solved:
  assumes "w * (8 * h) \<le> free" "8 * h \<le> maxAlloc"
  shows "fillColumns [0..<w] h (replicate w []) free = (solved w h, True)"
proof -
  have "fold (\<lambda>x b. b[x := default_column (length b) h x]) [0..<w] (replicate w []) = solved w h"
    by (rule nth_equalityI) (simp_all add: length_fold_update nth_fold_update solved_def)
  then show ?thesis using assms by (simp add: fillColumns_fold)
qed

lemma allDefault_True:
  "\<forall>(x, y) \<in> set cs. in_board b x y \<and> b ! x ! y = defaultTileValue b x y \<Longrightarrow>
   allDefault cs b = Returned True"
  by (induction cs) auto

lemma IsSolved_solved: "IsSolved (solved w h) = Returned True"
proof (cases w)
  case 0
  then show ?thesis by (simp add: IsSolved_def solved_def Height_def)
next
  case (Suc n)
  have "allDefault (scan_order w h) (solved w h) = Returned True"
    by (rule allDefault_True) (auto simp: scan_order_def defaultTileValue_def)
  then show ?thesis using Suc by (simp add: IsSolved_def)
qed

lemma NewBoard_eq:
  "NewBoard heap width height =
     (if sint width \<le> 1 then Returned (Inl WidthTooSmall)
      else if sint height \<le> 1 then Returned (Inl HeightTooSmall)
      else if fits heap (nat (sint width)) (nat (sint height))
        then Returned (Inr (solved (nat (sint width)) (nat (sint height))))
      else Panicked)"
proof (cases "sint width \<le> 1 \<or> sint height \<le> 1")
  case True
  then show ?thesis by (auto simp: NewBoard_def)
next
  case False
  let ?w = "nat (sint width)" and ?h = "nat (sint height)"
  let ?m = "min heap maxAlloc"
  from False have w: "1 < ?w" by simp
  show ?thesis
  proof (cases "fits heap ?w ?h")
    case True
    then have t: "24 * ?w + ?w * (8 * ?h) \<le> ?m" by (simp add: fits_def)
    then have m: "makeslice 24 ?w ?m = Some (?m - 24 * ?w)"
      by (simp add: makeslice_def min_less_iff_disj not_less)
    have "1 * (8 * ?h) \<le> ?w * (8 * ?h)" using w by (intro mult_le_mono1) simp
    then have "8 * ?h \<le> ?w * (8 * ?h)" by simp
    also have "\<dots> \<le> ?m" using t by linarith
    finally have h: "8 * ?h \<le> maxAlloc" by simp
    have "?w * (8 * ?h) \<le> ?m - 24 * ?w" using t by linarith
    then have "fillColumns [0..<?w] ?h (replicate ?w []) (?m - 24 * ?w) = (solved ?w ?h, True)"
      using h by (rule fillColumns_solved)
    then show ?thesis using False True m by (simp add: NewBoard_def)
  next
    case nofit: False
    show ?thesis
    proof (cases "makeslice 24 ?w ?m")
      case None
      then show ?thesis using False nofit by (simp add: NewBoard_def)
    next
      case (Some free)
      then have f: "free = ?m - 24 * ?w" "24 * ?w \<le> ?m"
        by (auto simp: makeslice_def split: if_splits)
      have "\<not> 24 * ?w + ?w * (8 * ?h) \<le> ?m" using nofit unfolding fits_def .
      then have "free < ?w * (8 * ?h)" using f by linarith
      then have "free < length [0..<?w] * (8 * ?h)" by simp
      moreover have "[0..<?w] \<noteq> []" using w by simp
      ultimately have "snd (fillColumns [0..<?w] ?h (replicate ?w []) free) = False"
        by (intro fillColumns_short) simp_all
      then obtain b' where "fillColumns [0..<?w] ?h (replicate ?w []) free = (b', False)"
        by (cases "fillColumns [0..<?w] ?h (replicate ?w []) free") auto
      then show ?thesis using False nofit Some by (simp add: NewBoard_def)
    qed
  qed
qed

lemma tile_number_le:
  assumes "x < w" "y < h"
  shows "x + y * w + 1 \<le> w * (h :: nat)"
proof -
  have "x + y * w + 1 \<le> w + y * w" using assms(1) by simp
  also have "\<dots> = Suc y * w" by simp
  also have "\<dots> \<le> h * w" using assms(2) by (intro mult_le_mono1) simp
  finally show ?thesis by (simp add: mult.commute)
qed

lemma fits_tile_bound:
  assumes "fits heap w h" "x < w" "y < h"
  shows "int x + int y * int w + 1 < 2 ^ 63"
proof -
  have "w * (8 * h) \<le> maxAlloc" using assms(1) by (simp add: fits_def)
  then have "8 * (w * h) \<le> 2 ^ 48" by (simp add: maxAlloc_def mult.commute)
  then have "w * h \<le> 2 ^ 48" by linarith
  then have "x + y * w + 1 \<le> 2 ^ 48" using tile_number_le [OF assms(2,3)] by simp
  then have "int (x + y * w + 1) \<le> 2 ^ 48" by (metis of_nat_le_iff of_nat_numeral of_nat_power)
  then show ?thesis by simp
qed

text \<open>
  C9 (amended). NewBoard returns an error exactly when the width or the height is at
  most 1. For a width and a height above 1 whose board fits the heap (24 bytes for each
  column's header and 8 for each tile, within what the runtime can still obtain and
  within \<open>2 ^ 48\<close>) it returns a board of that many columns and rows whose tile
  \<open>(x, y)\<close> holds \<open>x + y * width + 1\<close>, a number below \<open>2 ^ 63\<close>, and IsSolved is
  true on that board. For a width and a height above 1 whose board does not fit, the
  call ends in a panic of \<open>make\<close> or out of memory.
\<close>

theorem NewBoard_solved:
  "((\<exists>e. NewBoard heap width height = Returned (Inl e)) \<longleftrightarrow> sint width \<le> 1 \<or> sint height \<le> 1) \<and>
   (1 < sint width \<and> 1 < sint height \<and> fits heap (nat (sint width)) (nat (sint height)) \<longrightarrow>
      (\<exists>b. NewBoard heap width height = Returned (Inr b) \<and>
           Width b = nat (sint width) \<and> Height b = Some (nat (sint height)) \<and>
           (\<forall>x < nat (sint width). length (b ! x) = nat (sint height) \<and>
              (\<forall>y < nat (sint height).
                 b ! x ! y = int x + int y * sint width + 1 \<and> b ! x ! y < 2 ^ 63)) \<and>
           IsSolved b = Returned True)) \<and>
   (1 < sint width \<and> 1 < sint height \<and> \<not> fits heap (nat (sint width)) (nat (sint height)) \<longrightarrow>
      NewBoard heap width height = Panicked)"
proof (intro conjI impI)
  show "(\<exists>e. NewBoard heap width height = Returned (Inl e)) \<longleftrightarrow> sint width \<le> 1 \<or> sint height \<le> 1"
    by (auto simp: NewBoard_eq)
next
  let ?w = "nat (sint width)" and ?h = "nat (sint height)"
  assume a: "1 < sint width \<and> 1 < sint height \<and> fits heap ?w ?h"
  then have n: "NewBoard heap width height = Returned (Inr (solved ?w ?h))"
    by (simp add: NewBoard_eq)
  have "length (solved ?w ?h ! x) = ?h" if "x < ?w" for x
    using that by (simp add: solved_def default_column_def)
  moreover have "solved ?w ?h ! x ! y = int x + int y * sint width + 1"
    and "solved ?w ?h ! x ! y < 2 ^ 63" if "x < ?w" "y < ?h" for x y
    using that a fits_tile_bound [of heap ?w ?h x y] by simp_all
  ultimately show "\<exists>b. NewBoard heap width height = Returned (Inr b) \<and>
           Width b = ?w \<and> Height b = Some ?h \<and>
           (\<forall>x < ?w. length (b ! x) = ?h \<and>
              (\<forall>y < ?h. b ! x ! y = int x + int y * sint width + 1 \<and> b ! x ! y < 2 ^ 63)) \<and>
           IsSolved b = Returned True"
    using n a by (simp add: IsSolved_solved)
next
  assume "1 < sint width \<and> 1 < sint height \<and> \<not> fits heap (nat (sint width)) (nat (sint height))"
  then show "NewBoard heap width height = Panicked"
    by (simp add: NewBoard_eq)
qed

theorem NewBoard_solved_witness:
  "fits maxAlloc 3 3 \<and>
   NewBoard maxAlloc 3 3 = Returned (Inr [[1, 4, 7], [2, 5, 8], [3, 6, 9]]) \<and>
   IsSolved [[1, 4, 7], [2, 5, 8], [3, 6, 9]] = Returned True \<and>
   NewBoard maxAlloc 1 3 = Returned (Inl WidthTooSmall) \<and>
   NewBoard maxAlloc 3 (- 2) = Returned (Inl HeightTooSmall) \<and>
   \<not> fits 100 3 3 \<and> NewBoard 100 3 3 = Panicked"
  using NewBoard_solved [of maxAlloc 3 3] NewBoard_solved [of maxAlloc 1 3]
    NewBoard_solved [of maxAlloc 3 "- 2"] NewBoard_solved [of 100 3 3]
  by (simp add: NewBoard_eq fits_def maxAlloc_def solved_def default_column_def upt_conv_Cons)

theorem NewBoard_refused_length_counterexample:
  "(1::int) < sint (2 :: goint) \<and> (1::int) < sint (4611686018427387904 :: goint) \<and>
   NewBoard maxAlloc 2 4611686018427387904 = Panicked"
  by (simp add: NewBoard_eq fits_def maxAlloc_def)

section \<open>Rotating a line\<close>

subsection \<open>The inner loop\<close>

lemma carry_shape: "map length (fst (carry cs p b)) = map length b"
  by (induction cs arbitrary: p b) auto

lemma carry_frame:
  "(x, y) \<notin> set cs \<Longrightarrow> in_board b x y \<Longrightarrow> fst (carry cs p b) ! x ! y = b ! x ! y"
proof (induction cs arbitrary: p b)
  case Nil
  then show ?case by simp
next
  case (Cons c cs)
  obtain x0 y0 where c: "c = (x0, y0)" by (cases c)
  show ?case
  proof (cases "in_board b x0 y0")
    case True
    have "fst (carry cs (b ! x0 ! y0) (set_tile b x0 y0 p)) ! x ! y = set_tile b x0 y0 p ! x ! y"
      using Cons.prems by (intro Cons.IH) simp_all
    also have "\<dots> = b ! x ! y"
      using Cons.prems True c by (auto simp: nth_set_tile)
    finally show ?thesis using True c by simp
  next
    case False
    then show ?thesis using c by simp
  qed
qed

lemma carry_tiles:
  "distinct cs \<Longrightarrow> \<forall>c \<in> set cs. on_board b c \<Longrightarrow> j < length cs \<Longrightarrow>
   val (fst (carry cs p b)) (cs ! j) = (p # map (val b) cs) ! j"
proof (induction cs arbitrary: p b j)
  case Nil
  then show ?case by simp
next
  case (Cons c cs)
  obtain x y where c: "c = (x, y)" by (cases c)
  from Cons.prems c have xy: "in_board b x y" by (simp add: on_board_def)
  let ?b = "set_tile b x y p"
  have step: "carry (c # cs) p b = carry cs (b ! x ! y) ?b"
    using xy c by simp
  have notin: "(x, y) \<notin> set cs" using Cons.prems(1) c by simp
  show ?case
  proof (cases j)
    case 0
    have "fst (carry cs (b ! x ! y) ?b) ! x ! y = ?b ! x ! y"
      using notin xy by (intro carry_frame) simp_all
    then show ?thesis using 0 c step xy by (simp add: val_def nth_set_tile)
  next
    case (Suc k)
    have on: "\<forall>c \<in> set cs. on_board ?b c"
      using Cons.prems(2) by (simp add: on_board_def)
    have same: "map (val ?b) cs = map (val b) cs"
    proof (rule map_cong [OF refl])
      fix d assume d: "d \<in> set cs"
      then have "d \<noteq> (x, y)" using notin by auto
      moreover have "in_board b (fst d) (snd d)" using Cons.prems(2) d by (simp add: on_board_def)
      ultimately show "val ?b d = val b d"
        using xy by (cases d) (auto simp: val_def nth_set_tile)
    qed
    have "val (fst (carry cs (b ! x ! y) ?b)) (cs ! k) = (b ! x ! y # map (val ?b) cs) ! k"
      using Cons.prems Suc on by (intro Cons.IH) simp_all
    moreover have "val b c = b ! x ! y" by (simp add: val_def c)
    ultimately show ?thesis using Suc step same by simp
  qed
qed

lemma carry_final:
  "distinct cs \<Longrightarrow> \<forall>c \<in> set cs. on_board b c \<Longrightarrow>
   snd (carry cs p b) = Some (last (p # map (val b) cs))"
proof (induction cs arbitrary: p b)
  case Nil
  then show ?case by simp
next
  case (Cons c cs)
  obtain x y where c: "c = (x, y)" by (cases c)
  from Cons.prems c have xy: "in_board b x y" by (simp add: on_board_def)
  let ?b = "set_tile b x y p"
  have notin: "(x, y) \<notin> set cs" using Cons.prems(1) c by simp
  have on: "\<forall>c \<in> set cs. on_board ?b c"
    using Cons.prems(2) by (simp add: on_board_def)
  have same: "map (val ?b) cs = map (val b) cs"
  proof (rule map_cong [OF refl])
    fix d assume d: "d \<in> set cs"
    then have "d \<noteq> (x, y)" using notin by auto
    moreover have "in_board b (fst d) (snd d)" using Cons.prems(2) d by (simp add: on_board_def)
    ultimately show "val ?b d = val b d"
      using xy by (cases d) (auto simp: val_def nth_set_tile)
  qed
  have "snd (carry cs (b ! x ! y) ?b) = Some (last (b ! x ! y # map (val ?b) cs))"
    using Cons.prems on by (intro Cons.IH) simp_all
  moreover have "val b c = b ! x ! y" by (simp add: val_def c)
  moreover have "carry (c # cs) p b = carry cs (b ! x ! y) ?b"
    using xy c by simp
  ultimately show ?case using same by simp
qed

subsection \<open>Unit rotations of a line\<close>

lemma on_board_shape: "map length b' = map length b \<Longrightarrow> on_board b' c = on_board b c"
  unfolding on_board_def by (rule in_board_shape)

lemma line_shape: "map length b' = map length b \<Longrightarrow> line b' ln = line b ln"
  unfolding line_def using on_board_shape [of b' b] by simp

lemma fwd_shape [simp]: "map length (fwd ln b) = map length b"
  by (simp add: fwd_def carry_shape)

lemma bwd_shape [simp]: "map length (bwd ln b) = map length b"
  by (simp add: bwd_def carry_shape)

lemma on_board_fwd [simp]: "on_board (fwd ln b) c = on_board b c"
  by (rule on_board_shape) simp

lemma on_board_bwd [simp]: "on_board (bwd ln b) c = on_board b c"
  by (rule on_board_shape) simp

lemma line_fwd [simp]: "line (fwd ln b) ln' = line b ln'"
  by (rule line_shape) simp

lemma line_bwd [simp]: "line (bwd ln b) ln' = line b ln'"
  by (rule line_shape) simp

lemma fwd_frame: "c \<notin> set ln \<Longrightarrow> on_board b c \<Longrightarrow> val (fwd ln b) c = val b c"
  by (cases c) (simp add: fwd_def val_def on_board_def carry_frame)

lemma bwd_frame: "c \<notin> set ln \<Longrightarrow> on_board b c \<Longrightarrow> val (bwd ln b) c = val b c"
  by (cases c) (simp add: bwd_def val_def on_board_def carry_frame)

lemma fwd_nth:
  assumes "line b ln" "j < length ln"
  shows "val (fwd ln b) (ln ! j) = val b (ln ! ((j + length ln - 1) mod length ln))"
proof -
  have "val (fwd ln b) (ln ! j) = (val b (last ln) # map (val b) ln) ! j"
    using assms unfolding fwd_def line_def by (intro carry_tiles) simp_all
  also have "\<dots> = val b (ln ! ((j + length ln - 1) mod length ln))"
  proof (cases j)
    case 0
    then show ?thesis using assms by (simp add: last_conv_nth line_def)
  next
    case (Suc k)
    then show ?thesis using assms by simp
  qed
  finally show ?thesis .
qed

lemma bwd_nth:
  assumes "line b ln" "j < length ln"
  shows "val (bwd ln b) (ln ! j) = val b (ln ! (Suc j mod length ln))"
proof -
  let ?n = "length ln"
  have j: "ln ! j = rev ln ! (?n - 1 - j)"
    using assms(2) by (simp add: rev_nth)
  have "val (bwd ln b) (rev ln ! (?n - 1 - j)) = (val b (hd ln) # map (val b) (rev ln)) ! (?n - 1 - j)"
    using assms unfolding bwd_def line_def by (intro carry_tiles) simp_all
  also have "\<dots> = val b (ln ! (Suc j mod ?n))"
  proof (cases "Suc j = ?n")
    case True
    then show ?thesis using assms by (simp add: hd_conv_nth line_def)
  next
    case False
    with assms(2) have lt: "Suc j < ?n" by simp
    then obtain k where k: "?n - 1 - j = Suc k" by (metis Suc_diff_Suc diff_Suc_eq_diff_pred)
    then have "k < ?n" "?n - Suc k = Suc j" using lt by simp_all
    then show ?thesis using k lt by (simp add: rev_nth)
  qed
  finally show ?thesis using j by simp
qed

lemma mset_concat_set_tile:
  assumes "in_board b x y"
  shows "add_mset (b ! x ! y) (mset (concat (set_tile b x y v))) = add_mset v (mset (concat b))"
proof -
  from assms have x: "x < length b" and y: "y < length (b ! x)"
    by (simp_all add: in_board_def)
  have b: "b = take x b @ (b ! x) # drop (Suc x) b"
    using x by (rule id_take_nth_drop)
  have st: "set_tile b x y v = take x b @ (b ! x)[y := v] # drop (Suc x) b"
    using x by (simp add: set_tile_def upd_conv_take_nth_drop)
  have "b ! x ! y \<in># mset (b ! x)" using y by simp
  then have col: "add_mset (b ! x ! y) (mset ((b ! x)[y := v])) = add_mset v (mset (b ! x))"
    using y by (simp add: mset_update)
  have "mset (concat (set_tile b x y v))
        = mset (concat (take x b)) + mset ((b ! x)[y := v]) + mset (concat (drop (Suc x) b))"
    by (subst st) simp
  moreover have "mset (concat b)
        = mset (concat (take x b)) + mset (b ! x) + mset (concat (drop (Suc x) b))"
    by (subst b) simp
  ultimately show ?thesis using col
    by (metis union_mset_add_mset_left union_mset_add_mset_right)
qed

lemma carry_mset:
  "\<forall>c \<in> set cs. on_board b c \<Longrightarrow>
   \<exists>b' p'. carry cs p b = (b', Some p') \<and>
     add_mset p' (mset (concat b')) = add_mset p (mset (concat b))"
proof (induction cs arbitrary: p b)
  case Nil
  then show ?case by simp
next
  case (Cons c cs)
  obtain x y where c: "c = (x, y)" by (cases c)
  from Cons.prems c have xy: "in_board b x y" by (simp add: on_board_def)
  let ?b = "set_tile b x y p"
  have "\<forall>c \<in> set cs. on_board ?b c"
    using Cons.prems by (simp add: on_board_def)
  from Cons.IH [OF this, of "b ! x ! y"] obtain b' p' where
    run: "carry cs (b ! x ! y) ?b = (b', Some p')" and
    ms: "add_mset p' (mset (concat b')) = add_mset (b ! x ! y) (mset (concat ?b))"
    by (elim exE conjE) (rule that)
  have "carry (c # cs) p b = (b', Some p')"
    using xy c run by simp
  moreover have "add_mset p' (mset (concat b')) = add_mset p (mset (concat b))"
    using ms mset_concat_set_tile [OF xy, of p] by simp
  ultimately show ?case by blast
qed

lemma fwd_mset:
  assumes "line b ln"
  shows "mset (concat (fwd ln b)) = mset (concat b)"
proof -
  let ?p = "val b (last ln)"
  from assms have on: "\<forall>c \<in> set ln. on_board b c" and d: "distinct ln" and ne: "ln \<noteq> []"
    by (simp_all add: line_def)
  from carry_mset [OF on, of ?p] obtain b' p' where
    run: "carry ln ?p b = (b', Some p')" and
    ms: "add_mset p' (mset (concat b')) = add_mset ?p (mset (concat b))"
    by (elim exE conjE) (rule that)
  have "snd (carry ln ?p b) = Some (last (?p # map (val b) ln))"
    using d on by (rule carry_final)
  then have "p' = ?p" using run ne by (simp add: last_map)
  then show ?thesis using ms run by (simp add: fwd_def)
qed

lemma bwd_mset:
  assumes "line b ln"
  shows "mset (concat (bwd ln b)) = mset (concat b)"
proof -
  let ?p = "val b (hd ln)"
  from assms have on: "\<forall>c \<in> set (rev ln). on_board b c" and d: "distinct (rev ln)"
    and ne: "ln \<noteq> []"
    by (simp_all add: line_def)
  from carry_mset [OF on, of ?p] obtain b' p' where
    run: "carry (rev ln) ?p b = (b', Some p')" and
    ms: "add_mset p' (mset (concat b')) = add_mset ?p (mset (concat b))"
    by (elim exE conjE) (rule that)
  have "snd (carry (rev ln) ?p b) = Some (last (?p # map (val b) (rev ln)))"
    using d on by (rule carry_final)
  then have "p' = ?p" using run ne by (simp add: last_map last_rev)
  then show ?thesis using ms run by (simp add: bwd_def)
qed

lemma bwd_fwd:
  assumes "line b ln"
  shows "bwd ln (fwd ln b) = b"
proof (rule board_eqI)
  show "map length (bwd ln (fwd ln b)) = map length b" by simp
  let ?n = "length ln"
  have l1: "line (fwd ln b) ln" using assms by simp
  fix x y assume "in_board (bwd ln (fwd ln b)) x y"
  then have "on_board (bwd ln (fwd ln b)) (x, y)" by (simp add: on_board_def)
  then have on: "on_board b (x, y)" by simp
  then have on1: "on_board (fwd ln b) (x, y)" by simp
  have "val (bwd ln (fwd ln b)) (x, y) = val b (x, y)"
  proof (cases "(x, y) \<in> set ln")
    case True
    then obtain j where j: "j < ?n" "ln ! j = (x, y)" by (auto simp: in_set_conv_nth)
    have "val (bwd ln (fwd ln b)) (ln ! j) = val (fwd ln b) (ln ! (Suc j mod ?n))"
      using l1 j(1) by (rule bwd_nth)
    also have "\<dots> = val b (ln ! ((Suc j mod ?n + ?n - 1) mod ?n))"
    proof (rule fwd_nth [OF assms])
      have "0 < ?n" using j(1) by (cases ln) simp_all
      then show "Suc j mod ?n < ?n" by (rule mod_less_divisor)
    qed
    also have "(Suc j mod ?n + ?n - 1) mod ?n = j"
    proof (cases "Suc j = ?n")
      case True
      then show ?thesis using j(1) by simp
    next
      case False
      then have "Suc j < ?n" using j(1) by simp
      then show ?thesis by simp
    qed
    finally show ?thesis using j(2) by simp
  next
    case False
    then show ?thesis using on on1 by (simp add: bwd_frame fwd_frame)
  qed
  then show "bwd ln (fwd ln b) ! x ! y = b ! x ! y" by (simp add: val_def)
qed

lemma fwd_bwd:
  assumes "line b ln"
  shows "fwd ln (bwd ln b) = b"
proof (rule board_eqI)
  show "map length (fwd ln (bwd ln b)) = map length b" by simp
  let ?n = "length ln"
  have l1: "line (bwd ln b) ln" using assms by simp
  fix x y assume "in_board (fwd ln (bwd ln b)) x y"
  then have "on_board (fwd ln (bwd ln b)) (x, y)" by (simp add: on_board_def)
  then have on: "on_board b (x, y)" by simp
  then have on1: "on_board (bwd ln b) (x, y)" by simp
  have "val (fwd ln (bwd ln b)) (x, y) = val b (x, y)"
  proof (cases "(x, y) \<in> set ln")
    case True
    then obtain j where j: "j < ?n" "ln ! j = (x, y)" by (auto simp: in_set_conv_nth)
    let ?k = "(j + ?n - 1) mod ?n"
    have "0 < ?n" using j(1) by (cases ln) simp_all
    then have k: "?k < ?n" by (rule mod_less_divisor)
    have "val (fwd ln (bwd ln b)) (ln ! j) = val (bwd ln b) (ln ! ?k)"
      using l1 j(1) by (rule fwd_nth)
    also have "\<dots> = val b (ln ! (Suc ?k mod ?n))"
      using assms k by (rule bwd_nth)
    also have "Suc ?k mod ?n = j"
    proof (cases j)
      case 0
      then show ?thesis using j(1) by simp
    next
      case (Suc i)
      then show ?thesis using j(1) by simp
    qed
    finally show ?thesis using j(2) by simp
  next
    case False
    then show ?thesis using on on1 by (simp add: bwd_frame fwd_frame)
  qed
  then show "fwd ln (bwd ln b) ! x ! y = b ! x ! y" by (simp add: val_def)
qed

subsection \<open>MakeMove on a rectangular board\<close>

lemma rect_shape: "rect w h b \<longleftrightarrow> map length b = replicate w h"
  by (auto simp: rect_def list_eq_iff_nth_eq)

lemma rect_fwd [simp]: "rect w h (fwd ln b) = rect w h b"
  by (simp add: rect_shape)

lemma rect_bwd [simp]: "rect w h (bwd ln b) = rect w h b"
  by (simp add: rect_shape)

lemma rect_unit_shift [simp]: "rect w h (unit_shift w' h' m b) = rect w h b"
  by (simp add: unit_shift_def)

lemma rect_Height: "rect w h b \<Longrightarrow> Height b = (if w = 0 then None else Some h)"
  by (cases b) (auto simp: rect_def Height_def)

lemma rect_tile_at:
  "rect w h b \<Longrightarrow>
   tile_at b x y = (if 0 \<le> x \<and> 0 \<le> y \<and> nat x < w \<and> nat y < h then Some (b ! nat x ! nat y) else None)"
  by (auto simp: tile_at_def rect_in_board)

lemma line_target:
  assumes "rect w h b" "movable w h m"
  shows "line b (target_line w h m)"
  using assms
  by (auto simp: line_def target_line_def movable_def on_board_def rect_in_board distinct_map
        inj_on_def)

lemma carry_on_line:
  assumes "\<forall>c \<in> set cs. on_board b c"
  shows "\<exists>p'. carry cs p b = (fst (carry cs p b), Some p')"
proof -
  from carry_mset [OF assms, of p] obtain b' p' where "carry cs p b = (b', Some p')"
    by blast
  then show ?thesis by simp
qed

lemma shiftOnce_movable:
  assumes r: "rect w h b" and mv: "movable w h m"
  shows "shiftOnce m b = (unit_shift w h m b, True)"
proof -
  let ?i = "sint (Index m)"
  let ?ln = "target_line w h m"
  have ln: "line b ?ln" using r mv by (rule line_target)
  then have on: "\<forall>c \<in> set ?ln. on_board b c" and on': "\<forall>c \<in> set (rev ?ln). on_board b c"
    by (simp_all add: line_def)
  have W: "Width b = w" using r by (simp add: Width_def rect_def)
  have H: "Height b = Some h" using r mv by (simp add: rect_Height movable_def)
  have i: "0 \<le> ?i" and w: "0 < w" and h: "0 < h" using mv by (simp_all add: movable_def)
  obtain q1 where c1: "carry ?ln (val b (last ?ln)) b = (fwd ?ln b, Some q1)"
    using carry_on_line [OF on] unfolding fwd_def by blast
  obtain q2 where c2: "carry (rev ?ln) (val b (hd ?ln)) b = (bwd ?ln b, Some q2)"
    using carry_on_line [OF on'] unfolding bwd_def by blast
  show ?thesis
  proof (cases "Axis m")
    case HorizontalAxis
    then have ih: "nat ?i < h" using mv by (simp add: movable_def)
    have rt: "row_tiles b (nat ?i) = ?ln"
      using HorizontalAxis W by (simp add: row_tiles_def target_line_def)
    have "?ln = map (\<lambda>x. (x, nat ?i)) [0..<w]"
      using HorizontalAxis by (simp add: target_line_def)
    then have l: "last ?ln = (w - 1, nat ?i)" and f: "hd ?ln = (0, nat ?i)"
      using w by (simp_all add: last_map hd_map last_upt)
    have p1: "tile_at b (int (Width b) - 1) ?i = Some (val b (last ?ln))"
      using r w i ih W l by (simp add: rect_tile_at val_def nat_diff_distrib')
    have p2: "tile_at b 0 ?i = Some (val b (hd ?ln))"
      using r w i ih f by (simp add: rect_tile_at val_def)
    show ?thesis
      using HorizontalAxis
      by (simp add: shiftOnce_def Let_def p1 p2 rt c1 c2 unit_shift_def)
  next
    case VerticalAxis
    then have iw: "nat ?i < w" using mv by (simp add: movable_def)
    have ct: "column_tiles (nat ?i) h = ?ln"
      using VerticalAxis by (simp add: column_tiles_def target_line_def)
    have "?ln = map (Pair (nat ?i)) [0..<h]"
      using VerticalAxis by (simp add: target_line_def)
    then have l: "last ?ln = (nat ?i, h - 1)" and f: "hd ?ln = (nat ?i, 0)"
      using h by (simp_all add: last_map hd_map last_upt)
    have p1: "tile_at b ?i (int h - 1) = Some (val b (last ?ln))"
      using r h i iw l by (simp add: rect_tile_at val_def nat_diff_distrib')
    have p2: "tile_at b ?i 0 = Some (val b (hd ?ln))"
      using r h i iw f by (simp add: rect_tile_at val_def)
    show ?thesis
      using VerticalAxis
      by (simp add: shiftOnce_def Let_def H p1 p2 ct c1 c2 unit_shift_def)
  qed
qed

lemma shiftOnce_stuck:
  assumes r: "rect w h b" and mv: "\<not> movable w h m"
  shows "shiftOnce m b = (b, False)"
proof (cases "Axis m")
  case HorizontalAxis
  have W: "Width b = w" using r by (simp add: Width_def rect_def)
  have "tile_at b (int w - 1) (sint (Index m)) = None" "tile_at b 0 (sint (Index m)) = None"
    using r mv HorizontalAxis by (auto simp: rect_tile_at movable_def)
  then show ?thesis using HorizontalAxis W by (simp add: shiftOnce_def Let_def)
next
  case VerticalAxis
  show ?thesis
  proof (cases "w = 0")
    case True
    then have "Height b = None" using r by (simp add: rect_Height)
    then show ?thesis using VerticalAxis by (simp add: shiftOnce_def Let_def)
  next
    case False
    then have H: "Height b = Some h" using r by (simp add: rect_Height)
    have "tile_at b (sint (Index m)) (int h - 1) = None" "tile_at b (sint (Index m)) 0 = None"
      using r mv VerticalAxis False by (auto simp: rect_tile_at movable_def)
    then show ?thesis using VerticalAxis H by (simp add: shiftOnce_def Let_def)
  qed
qed

lemma repeatBody_movable:
  "rect w h b \<Longrightarrow> movable w h m \<Longrightarrow>
   repeatBody n (shiftOnce m) b = ((unit_shift w h m ^^ n) b, True)"
proof (induction n arbitrary: b)
  case 0
  then show ?case by simp
next
  case (Suc n)
  have "repeatBody (Suc n) (shiftOnce m) b = repeatBody n (shiftOnce m) (unit_shift w h m b)"
    using Suc.prems by (simp add: shiftOnce_movable)
  also have "\<dots> = ((unit_shift w h m ^^ n) (unit_shift w h m b), True)"
    using Suc.prems by (intro Suc.IH) simp_all
  finally show ?case by (simp add: funpow_swap1)
qed

lemma repeatBody_stuck:
  "rect w h b \<Longrightarrow> \<not> movable w h m \<Longrightarrow>
   repeatBody n (shiftOnce m) b = (b, n = 0)"
  by (cases n) (simp_all add: shiftOnce_stuck)

lemma MakeMove_rect:
  assumes "rect w h b"
  shows "MakeMove b m =
     (if steps m = 0 \<or> movable w h m
      then ((unit_shift w h m ^^ steps m) b, Returned (Abs (Amount m)))
      else (b, Panicked))"
proof (cases "movable w h m")
  case True
  then show ?thesis
    using assms by (simp add: MakeMove_def Let_def steps_def repeatBody_movable)
next
  case False
  then show ?thesis
    using assms by (simp add: MakeMove_def Let_def steps_def repeatBody_stuck)
qed

subsection \<open>Negating the amount\<close>

lemma sint_uminus:
  fixes a :: goint
  shows "sint (- a) = (if sint a = - (2 ^ 63) then - (2 ^ 63) else - sint a)"
proof -
  have r: "- (2 ^ 63) \<le> sint a" "sint a < 2 ^ 63"
    using sint_ge [of a] sint_lt [of a] by simp_all
  have "sint (- a) = signed_take_bit 63 (- sint a)"
    by (simp add: sint_word_minus)
  also have "\<dots> = (if sint a = - (2 ^ 63) then - (2 ^ 63) else - sint a)"
  proof (cases "sint a = - (2 ^ 63)")
    case True
    then show ?thesis by simp
  next
    case False
    then have "- (2 ^ 63) \<le> - sint a" "- sint a < 2 ^ 63" using r by simp_all
    then have "signed_take_bit 63 (- sint a) = - sint a"
      by (simp add: signed_take_bit_int_eq_self_iff)
    then show ?thesis using False by simp
  qed
  finally show ?thesis .
qed

lemma Abs_uminus: "Abs (- a) = Abs a"
proof (cases "sint a = - (2 ^ 63)")
  case True
  then have "sint (- a) = sint a" by (simp add: sint_uminus)
  then have "- a = a" by (rule signed_word_eqI)
  then show ?thesis by (rule arg_cong)
next
  case False
  then have s: "sint (- a) = - sint a" by (simp add: sint_uminus)
  show ?thesis
  proof (cases "sint a = 0")
    case True
    then have "sint a = sint (0 :: goint)" by simp
    then have "a = 0" by (rule signed_word_eqI)
    then show ?thesis by simp
  next
    case False
    then show ?thesis using s by (auto simp: Abs_def)
  qed
qed

lemma forward_uminus:
  assumes "0 < sint (Abs a)"
  shows "(0 < sint (- a)) \<longleftrightarrow> \<not> 0 < sint a"
proof (cases "sint a = - (2 ^ 63)")
  case True
  then have "sint (- a) = sint a" by (simp add: sint_uminus)
  then have "sint (Abs a) = sint a" using True by (simp add: Abs_def)
  then show ?thesis using assms True by simp
next
  case False
  then have s: "sint (- a) = - sint a" by (simp add: sint_uminus)
  have "sint a \<noteq> 0"
  proof
    assume "sint a = 0"
    then have "sint a = sint (0 :: goint)" by simp
    then have "a = 0" by (rule signed_word_eqI)
    then show False using assms by (simp add: Abs_def)
  qed
  then show ?thesis using s by auto
qed

lemma funpow_undo:
  assumes "\<And>b. P b \<Longrightarrow> g (f b) = b" "\<And>b. P b \<Longrightarrow> P (f b)" "P b"
  shows "(g ^^ n) ((f ^^ n) b) = b"
proof (induction n)
  case 0
  then show ?case by simp
next
  case (Suc n)
  have P: "P ((f ^^ n) b)" by (induction n) (simp_all add: assms)
  have "(g ^^ Suc n) ((f ^^ Suc n) b) = (g ^^ n) (g (f ((f ^^ n) b)))"
    by (simp add: funpow_swap1)
  then show ?case using Suc assms(1) [OF P] by simp
qed

lemma funpow_keeps:
  assumes "\<And>b. P b \<Longrightarrow> P (f b)" "P b"
  shows "P ((f ^^ n) b)"
  by (induction n) (simp_all add: assms)

lemma MakeMove_shape:
  assumes "rect w h b"
  shows "map length (fst (MakeMove b m)) = map length b"
proof -
  have "rect w h ((unit_shift w h m ^^ steps m) b)"
    by (rule funpow_keeps [where P = "rect w h"]) (simp_all add: assms)
  then show ?thesis using assms by (simp add: MakeMove_rect [OF assms] rect_shape)
qed

lemma MakeMove_undo:
  assumes "rect w h b"
  shows "fst (MakeMove (fst (MakeMove b m)) (m\<lparr>Amount := - Amount m\<rparr>)) = b"
proof -
  let ?m' = "m\<lparr>Amount := - Amount m\<rparr>"
  let ?ln = "target_line w h m"
  have st: "steps ?m' = steps m" by (simp add: steps_def Abs_uminus)
  have mv: "movable w h ?m' = movable w h m" by (simp add: movable_def)
  have ln: "target_line w h ?m' = ?ln" by (simp add: target_line_def)
  show ?thesis
  proof (cases "steps m = 0 \<or> movable w h m")
    case False
    then show ?thesis using assms st mv by (simp add: MakeMove_rect)
  next
    case True
    let ?b1 = "(unit_shift w h m ^^ steps m) b"
    have r1: "rect w h ?b1"
      by (rule funpow_keeps [where P = "rect w h"]) (simp_all add: assms)
    have 1: "fst (MakeMove b m) = ?b1" using assms True by (simp add: MakeMove_rect)
    have 2: "fst (MakeMove ?b1 ?m') = (unit_shift w h ?m' ^^ steps m) ?b1"
      using r1 True st mv by (simp add: MakeMove_rect)
    show ?thesis
    proof (cases "steps m = 0")
      case True
      then show ?thesis using 1 2 by simp
    next
      case False
      with True have mov: "movable w h m" by simp
      from False have pos: "0 < sint (Abs (Amount m))" by (simp add: steps_def)
      have undo: "unit_shift w h ?m' (unit_shift w h m c) = c" if "rect w h c" for c
      proof -
        have l: "line c ?ln" using that mov by (rule line_target)
        show ?thesis
        proof (cases "0 < sint (Amount m)")
          case True
          then have "\<not> 0 < sint (- Amount m)" using forward_uminus [OF pos] by simp
          then show ?thesis using True l by (simp add: unit_shift_def ln bwd_fwd)
        next
          case False
          then have "0 < sint (- Amount m)" using forward_uminus [OF pos] by simp
          then show ?thesis using False l by (simp add: unit_shift_def ln fwd_bwd)
        qed
      qed
      have "(unit_shift w h ?m' ^^ steps m) ?b1 = b"
        by (rule funpow_undo [where P = "rect w h"]) (simp_all add: undo assms)
      then show ?thesis using 1 2 by simp
    qed
  qed
qed

text \<open>
  C2. On every rectangular board and for every Move, MakeMove followed by MakeMove with
  the same axis and index and the negated amount leaves every tile as it was before
  the first call. When the index is on the board along the line's direction, both
  calls return. (Otherwise both calls panic before a tile is written, unless the
  amount is the least \<open>int\<close>, for which neither call rotates anything.)
\<close>

theorem MakeMove_inverse:
  assumes "rect w h b"
  shows "fst (MakeMove (fst (MakeMove b m)) (m\<lparr>Amount := - Amount m\<rparr>)) = b \<and>
         (movable w h m \<longrightarrow>
            snd (MakeMove b m) = Returned (Abs (Amount m)) \<and>
            snd (MakeMove (fst (MakeMove b m)) (m\<lparr>Amount := - Amount m\<rparr>))
              = Returned (Abs (Amount m)))"
proof (intro conjI impI)
  show "fst (MakeMove (fst (MakeMove b m)) (m\<lparr>Amount := - Amount m\<rparr>)) = b"
    using assms by (rule MakeMove_undo)
  assume mv: "movable w h m"
  have r1: "rect w h (fst (MakeMove b m))"
    using assms by (simp add: rect_shape MakeMove_shape [OF assms])
  have mv': "movable w h (m\<lparr>Amount := - Amount m\<rparr>)"
    using mv by (simp add: movable_def)
  show "snd (MakeMove b m) = Returned (Abs (Amount m))"
    using mv by (simp add: MakeMove_rect [OF assms])
  show "snd (MakeMove (fst (MakeMove b m)) (m\<lparr>Amount := - Amount m\<rparr>))
          = Returned (Abs (Amount m))"
    using mv' by (simp add: MakeMove_rect [OF r1] Abs_uminus)
qed

theorem MakeMove_inverse_witness:
  "rect 3 3 [[1, 4, 7], [2, 5, 8], [3, 6, 9]] \<and>
   movable 3 3 \<lparr>Axis = HorizontalAxis, Index = 0, Amount = 2\<rparr> \<and>
   MakeMove [[1, 4, 7], [2, 5, 8], [3, 6, 9]] \<lparr>Axis = HorizontalAxis, Index = 0, Amount = 2\<rparr>
     = ([[2, 4, 7], [3, 5, 8], [1, 6, 9]], Returned 2) \<and>
   fst (MakeMove (fst (MakeMove [[1, 4, 7], [2, 5, 8], [3, 6, 9]]
                          \<lparr>Axis = HorizontalAxis, Index = 0, Amount = 2\<rparr>))
                 \<lparr>Axis = HorizontalAxis, Index = 0, Amount = - 2\<rparr>)
     = [[1, 4, 7], [2, 5, 8], [3, 6, 9]]"
proof -
  have r: "rect 3 3 [[1, 4, 7], [2, 5, 8], [3, 6, 9]]"
    by (simp add: rect_shape eval_nat_numeral)
  have "MakeMove [[1, 4, 7], [2, 5, 8], [3, 6, 9]] \<lparr>Axis = HorizontalAxis, Index = 0, Amount = 2\<rparr>
     = ([[2, 4, 7], [3, 5, 8], [1, 6, 9]], Returned 2)"
    by (simp add: MakeMove_def Abs_def shiftOnce_def tile_at_def in_board_def Width_def
          row_tiles_def set_tile_def eval_nat_numeral upt_conv_Cons)
  then show ?thesis
    using r MakeMove_inverse [OF r, of "\<lparr>Axis = HorizontalAxis, Index = 0, Amount = 2\<rparr>"]
    by (simp add: movable_def)
qed

subsection \<open>Tiles off the target line\<close>

lemma carry_shape': "carry cs p b = (b', r) \<Longrightarrow> map length b' = map length b"
  using carry_shape [of cs p b] by simp

lemma carry_frame':
  "carry cs p b = (b', r) \<Longrightarrow> (x, y) \<notin> set cs \<Longrightarrow> in_board b x y \<Longrightarrow> b' ! x ! y = b ! x ! y"
  using carry_frame [of x y cs b p] by simp

lemma shiftOnce_shape: "map length (fst (shiftOnce m b)) = map length b"
  by (auto simp: shiftOnce_def Let_def split: option.splits prod.splits dest: carry_shape')

lemma tile_at_Some_nonneg: "tile_at b x y = Some p \<Longrightarrow> 0 \<le> x \<and> 0 \<le> y"
  by (simp add: tile_at_def split: if_splits)

lemma shiftOnce_frame:
  assumes "in_board b x y"
    and "Axis m = HorizontalAxis \<Longrightarrow> int y \<noteq> sint (Index m)"
    and "Axis m = VerticalAxis \<Longrightarrow> int x \<noteq> sint (Index m)"
  shows "fst (shiftOnce m b) ! x ! y = b ! x ! y"
proof (cases "Axis m")
  case HorizontalAxis
  have out: "(x, y) \<notin> set (row_tiles b (nat (sint (Index m))))" if "0 \<le> sint (Index m)"
    using that assms(2) [OF HorizontalAxis] by (auto simp: row_tiles_def)
  show ?thesis
    using HorizontalAxis assms(1) out
    by (auto simp: shiftOnce_def Let_def split: option.splits prod.splits
          dest!: tile_at_Some_nonneg intro: carry_frame')
next
  case VerticalAxis
  have out: "(x, y) \<notin> set (column_tiles (nat (sint (Index m))) h)" if "0 \<le> sint (Index m)" for h
    using that assms(3) [OF VerticalAxis] by (auto simp: column_tiles_def)
  show ?thesis
    using VerticalAxis assms(1) out
    by (auto simp: shiftOnce_def Let_def split: option.splits prod.splits
          dest!: tile_at_Some_nonneg intro: carry_frame')
qed

lemma repeatBody_frame:
  assumes "Axis m = HorizontalAxis \<Longrightarrow> int y \<noteq> sint (Index m)"
    and "Axis m = VerticalAxis \<Longrightarrow> int x \<noteq> sint (Index m)"
  shows "in_board b x y \<Longrightarrow>
    fst (repeatBody n (shiftOnce m) b) ! x ! y = b ! x ! y \<and>
    map length (fst (repeatBody n (shiftOnce m) b)) = map length b"
proof (induction n arbitrary: b)
  case 0
  then show ?case by simp
next
  case (Suc n)
  obtain b1 ok where s: "shiftOnce m b = (b1, ok)" by (cases "shiftOnce m b")
  have sh: "map length b1 = map length b" using shiftOnce_shape [of m b] s by simp
  have fr: "b1 ! x ! y = b ! x ! y"
    using shiftOnce_frame [OF Suc.prems assms] s by simp
  show ?case
  proof (cases ok)
    case True
    have "in_board b1 x y" using Suc.prems in_board_shape [OF sh] by simp
    from Suc.IH [OF this] show ?thesis using s True sh fr by simp
  next
    case False
    then show ?thesis using s sh fr by simp
  qed
qed

text \<open>
  C10. On every board and for every Move, a tile that is not on the target line (not in
  row \<open>Index\<close> for a horizontal Move, not in column \<open>Index\<close> for a vertical one) holds
  after MakeMove the value it held before, and no column changes its length. This
  holds as well when the call panics.
\<close>

theorem MakeMove_frame:
  assumes "in_board b x y"
    and "Axis m = HorizontalAxis \<Longrightarrow> int y \<noteq> sint (Index m)"
    and "Axis m = VerticalAxis \<Longrightarrow> int x \<noteq> sint (Index m)"
  shows "fst (MakeMove b m) ! x ! y = b ! x ! y \<and>
         map length (fst (MakeMove b m)) = map length b"
proof -
  let ?r = "repeatBody (nat (sint (Abs (Amount m)))) (shiftOnce m) b"
  have "fst (MakeMove b m) = fst ?r"
    by (simp add: MakeMove_def Let_def split: prod.splits bool.splits)
  then show ?thesis
    using repeatBody_frame [OF assms(2,3) assms(1), of "nat (sint (Abs (Amount m)))"] by simp
qed

theorem MakeMove_frame_witness:
  "in_board [[1, 4, 7], [2, 5, 8], [3, 6, 9]] 1 2 \<and>
   MakeMove [[1, 4, 7], [2, 5, 8], [3, 6, 9]] \<lparr>Axis = VerticalAxis, Index = 0, Amount = - 1\<rparr>
     = ([[4, 7, 1], [2, 5, 8], [3, 6, 9]], Returned 1) \<and>
   fst (MakeMove [[1, 4, 7], [2, 5, 8], [3, 6, 9]]
          \<lparr>Axis = VerticalAxis, Index = 0, Amount = - 1\<rparr>) ! 1 ! 2 = 8"
proof -
  have i: "in_board [[1, 4, 7], [2, 5, 8], [3, 6, 9]] 1 2"
    by (simp add: in_board_def)
  have "MakeMove [[1, 4, 7], [2, 5, 8], [3, 6, 9]] \<lparr>Axis = VerticalAxis, Index = 0, Amount = - 1\<rparr>
     = ([[4, 7, 1], [2, 5, 8], [3, 6, 9]], Returned 1)"
    by (simp add: MakeMove_def Abs_def shiftOnce_def tile_at_def in_board_def Height_def
          column_tiles_def set_tile_def eval_nat_numeral upt_conv_Cons)
  then show ?thesis
    using i MakeMove_frame [OF i, of "\<lparr>Axis = VerticalAxis, Index = 0, Amount = - 1\<rparr>"]
    by simp
qed

section \<open>The tiles are a permutation of the numbers\<close>

lemma concat_solved: "concat (solved w h) = map int (tile_numbers w h)"
proof -
  have "default_column w h = (\<lambda>x. map (\<lambda>y. int (x + y * w + 1)) [0..<h])"
    by (rule ext) (simp add: default_column_def)
  then show ?thesis
    by (simp add: solved_def tile_numbers_def product_concat_map map_concat comp_def)
qed

lemma tile_number_inj:
  assumes "x + y * w = x' + y' * w" "x < w" "x' < w"
  shows "x = x' \<and> y = (y' :: nat)"
proof -
  have "(x + y * w) mod w = (x' + y' * w) mod w" using assms(1) by simp
  then have x: "x = x'" using assms(2,3) by simp
  then have "y * w = y' * w" using assms(1) by simp
  then show ?thesis using x assms(2) by simp
qed

lemma distinct_tile_numbers: "distinct (tile_numbers w h)"
  unfolding tile_numbers_def
  by (rule distinct_map [THEN iffD2])
     (auto simp: distinct_product inj_on_def dest: tile_number_inj)

lemma set_tile_numbers: "set (tile_numbers w h) = {1..w * h}"
proof (rule set_eqI)
  fix k :: nat
  show "k \<in> set (tile_numbers w h) \<longleftrightarrow> k \<in> {1..w * h}"
  proof
    assume "k \<in> set (tile_numbers w h)"
    then obtain x y where xy: "x < w" "y < h" "k = x + y * w + 1"
      by (auto simp: tile_numbers_def)
    have "x + y * w + 1 \<le> w + y * w" using xy(1) by simp
    also have "\<dots> = Suc y * w" by simp
    also have "\<dots> \<le> h * w" using xy(2) by (intro mult_le_mono1) simp
    finally show "k \<in> {1..w * h}" using xy(3) by (simp add: mult.commute)
  next
    assume k: "k \<in> {1..w * h}"
    then have w: "0 < w" by (cases w) auto
    define n where "n = k - 1"
    have n: "n < w * h" "k = n + 1" using k by (auto simp: n_def)
    have "n div w < h" using n(1) w by (simp add: less_mult_imp_div_less mult.commute)
    moreover have "n mod w < w" using w by simp
    moreover have "n = n mod w + (n div w) * w" by simp
    ultimately have "(n mod w, n div w) \<in> set (List.product [0..<w] [0..<h])"
      and "k = (\<lambda>(x, y). x + y * w + 1) (n mod w, n div w)"
      using n(2) by simp_all
    then show "k \<in> set (tile_numbers w h)"
      unfolding tile_numbers_def set_map by (rule rev_image_eqI)
  qed
qed

lemma mset_solved: "mset (concat (solved w h)) = mset [1..int (w * h)]"
proof (rule set_eq_iff_mset_eq_distinct [THEN iffD1])
  show "distinct (concat (solved w h))"
    by (simp add: concat_solved distinct_map distinct_tile_numbers)
  show "distinct [1..int (w * h)]" by simp
  have "set (concat (solved w h)) = int ` {1..w * h}"
    by (simp add: concat_solved set_tile_numbers)
  also have "\<dots> = {1..int (w * h)}"
    using image_int_atLeastAtMost [of 1 "w * h"] by simp
  finally show "set (concat (solved w h)) = set [1..int (w * h)]" by simp
qed

lemma Reset_rect:
  assumes "rect w h b"
  shows "Reset b = (solved w h, Returned ())"
proof (cases "w = 0")
  case True
  then have "b = []" using assms by (simp add: rect_def)
  then show ?thesis using True by (simp add: Reset_def Height_def solved_def)
next
  case False
  then have H: "Height b = Some h" using assms by (simp add: rect_Height)
  have W: "Width b = w" using assms by (simp add: Width_def rect_def)
  let ?cs = "scan_order w h"
  have "in_board b x y" if "(x, y) \<in> set ?cs" for x y
    using that assms by (simp add: scan_order_def rect_in_board)
  then have "\<forall>(x, y) \<in> set ?cs. in_board b x y" by blast
  from resetTiles_spec [OF this] obtain b' where
    run: "resetTiles ?cs b = (b', True)" and shape: "map length b' = map length b" and
    tiles: "\<forall>x y. in_board b x y \<longrightarrow>
           b' ! x ! y = (if (x, y) \<in> set ?cs then defaultTileValue b x y else b ! x ! y)"
    by (elim exE conjE) (rule that)
  have "b' = solved w h"
  proof (rule board_eqI)
    have "map length (solved w h) = replicate w h"
      by (simp add: solved_def default_column_def comp_def map_replicate_const)
    then show "map length b' = map length (solved w h)"
      using shape assms by (simp add: rect_shape)
    fix x y assume "in_board b' x y"
    then have ib: "in_board b x y" using in_board_shape [OF shape] by simp
    then have xy: "x < w" "y < h" using assms by (simp_all add: rect_in_board)
    then have "(x, y) \<in> set ?cs" by (simp add: scan_order_def)
    then have "b' ! x ! y = defaultTileValue b x y" using tiles ib by simp
    then show "b' ! x ! y = solved w h ! x ! y"
      using xy W by (simp add: defaultTileValue_def)
  qed
  then show ?thesis using run H W by (simp add: Reset_def)
qed

lemma rect_solved: "rect w h (solved w h)"
  by (simp add: rect_def solved_def default_column_def)

lemma permuted_solved: "permuted w h (solved w h)"
  by (simp add: permuted_def rect_solved mset_solved)

lemma permuted_unit_shift:
  assumes "permuted w h b" "movable w h m"
  shows "permuted w h (unit_shift w h m b)"
proof -
  from assms have "line b (target_line w h m)"
    by (simp add: permuted_def line_target)
  then have "mset (concat (unit_shift w h m b)) = mset (concat b)"
    by (simp add: unit_shift_def fwd_mset bwd_mset)
  then show ?thesis using assms(1) by (simp add: permuted_def)
qed

lemma permuted_MakeMove:
  assumes "permuted w h b"
  shows "permuted w h (fst (MakeMove b m))"
proof -
  from assms have r: "rect w h b" by (simp add: permuted_def)
  note eq = MakeMove_rect [OF r, of m]
  show ?thesis
  proof (cases "movable w h m")
    case True
    have "permuted w h ((unit_shift w h m ^^ steps m) b)"
      by (rule funpow_keeps [where P = "permuted w h"])
         (simp_all add: permuted_unit_shift True assms)
    then show ?thesis using True by (simp add: eq)
  next
    case False
    then show ?thesis using assms by (simp add: eq)
  qed
qed

lemma permuted_shape:
  "map length b' = map length b \<Longrightarrow> mset (concat b') = mset (concat b) \<Longrightarrow>
   permuted w h b \<Longrightarrow> permuted w h b'"
  by (simp add: permuted_def rect_shape)

lemma swapTiles_keeps:
  assumes "swapTiles b x1 y1 x2 y2 = Some b'"
  shows "map length b' = map length b \<and> mset (concat b') = mset (concat b)"
proof -
  let ?b1 = "set_tile b x1 y1 (b ! x2 ! y2)"
  from assms have i1: "in_board b x1 y1" and i2: "in_board b x2 y2"
    and b': "b' = set_tile ?b1 x2 y2 (b ! x1 ! y1)"
    by (auto simp: swapTiles_def split: if_splits)
  have m1: "add_mset (b ! x1 ! y1) (mset (concat ?b1)) = add_mset (b ! x2 ! y2) (mset (concat b))"
    by (rule mset_concat_set_tile [OF i1])
  have i2': "in_board ?b1 x2 y2" using i2 by simp
  have v: "?b1 ! x2 ! y2 = b ! x2 ! y2"
    using i1 i2 by (simp add: nth_set_tile)
  have "add_mset (?b1 ! x2 ! y2) (mset (concat b')) = add_mset (b ! x1 ! y1) (mset (concat ?b1))"
    unfolding b' by (rule mset_concat_set_tile [OF i2'])
  then have "add_mset (b ! x2 ! y2) (mset (concat b')) = add_mset (b ! x2 ! y2) (mset (concat b))"
    using m1 v by simp
  then show ?thesis using b' by simp
qed

lemma swapEach_keeps:
  "swapEach cs w h b rs = (b', rs', out) \<Longrightarrow>
   map length b' = map length b \<and> mset (concat b') = mset (concat b)"
proof (induction cs arbitrary: b rs)
  case Nil
  then show ?case by simp
next
  case (Cons c cs)
  obtain x1 y1 where c: "c = (x1, y1)" by (cases c)
  obtain o1 rs1 where p: "pickOther w h x1 y1 rs = (o1, rs1)" by (cases "pickOther w h x1 y1 rs")
  show ?case
  proof (cases o1)
    case (Returned xy)
    obtain x2 y2 where xy: "xy = (x2, y2)" by (cases xy)
    show ?thesis
    proof (cases "swapTiles b x1 y1 x2 y2")
      case None
      then show ?thesis using Cons.prems c p Returned xy by simp
    next
      case (Some b1)
      then have "swapEach cs w h b1 rs1 = (b', rs', out)"
        using Cons.prems c p Returned xy by simp
      from Cons.IH [OF this] swapTiles_keeps [OF Some] show ?thesis by simp
    qed
  next
    case Panicked
    then show ?thesis using Cons.prems c p by simp
  next
    case Starved
    then show ?thesis using Cons.prems c p by simp
  qed
qed

lemma permuted_FastShuffle:
  assumes "permuted w h b"
  shows "permuted w h (fst (FastShuffle b rs))"
proof (cases "Height b")
  case None
  then show ?thesis using assms by (simp add: FastShuffle_def)
next
  case (Some h')
  obtain b' rs' out where r: "swapEach (scan_order (Width b) h') (Width b) h' b rs = (b', rs', out)"
    by (cases "swapEach (scan_order (Width b) h') (Width b) h' b rs") auto
  from swapEach_keeps [OF r] assms have "permuted w h b'"
    by (auto intro: permuted_shape)
  then show ?thesis using Some r by (simp add: FastShuffle_def)
qed

lemma shuffleLoop_keeps:
  "permuted w h b \<Longrightarrow> permuted w h (fst (shuffleLoop n moves b rs))"
proof (induction n arbitrary: moves b rs)
  case 0
  then show ?case by simp
next
  case (Suc n)
  have mk: "permuted w h (fst (MakeMove b m))" for m
    using Suc.prems by (rule permuted_MakeMove)
  show ?case
    using Suc.prems Suc.IH mk
    by (auto simp: withIntn_def split: prod.splits outcome.splits option.splits if_splits)
       (metis fst_conv)+
qed

lemma permuted_Shuffle:
  "permuted w h b \<Longrightarrow> permuted w h (fst (Shuffle b n rs))"
  by (simp add: Shuffle_def shuffleLoop_keeps split: option.splits)

text \<open>
  C3. Every board that NewBoard returns (it does so only for a width and a height
  above 1) holds each of the numbers \<open>1, \<dots>, w * h\<close> exactly once, and Reset, MakeMove,
  FastShuffle and Shuffle keep it so: whatever the Move, the random draws and the way
  the call ends, the board they leave is rectangular with the same multiset of tiles.
\<close>

theorem permuted_invariant:
  "(NewBoard heap width height = Returned (Inr b0) \<longrightarrow>
      1 < sint width \<and> 1 < sint height \<and>
      permuted (nat (sint width)) (nat (sint height)) b0) \<and>
   (permuted w h b \<longrightarrow>
      permuted w h (fst (Reset b)) \<and> permuted w h (fst (MakeMove b m)) \<and>
      permuted w h (fst (FastShuffle b rs)) \<and> permuted w h (fst (Shuffle b n rs)))"
proof (intro conjI impI)
  assume "NewBoard heap width height = Returned (Inr b0)"
  then have "1 < sint width \<and> 1 < sint height \<and> b0 = solved (nat (sint width)) (nat (sint height))"
    by (auto simp: NewBoard_eq split: if_splits)
  then show "1 < sint width" "1 < sint height"
    "permuted (nat (sint width)) (nat (sint height)) b0"
    by (simp_all add: permuted_solved)
next
  assume p: "permuted w h b"
  then have "rect w h b" by (simp add: permuted_def)
  then show "permuted w h (fst (Reset b))"
    by (simp add: Reset_rect permuted_solved)
  show "permuted w h (fst (MakeMove b m))" using p by (rule permuted_MakeMove)
  show "permuted w h (fst (FastShuffle b rs))" using p by (rule permuted_FastShuffle)
  show "permuted w h (fst (Shuffle b n rs))" using p by (rule permuted_Shuffle)
qed

theorem permuted_invariant_witness:
  "NewBoard maxAlloc 2 2 = Returned (Inr [[1, 3], [2, 4]]) \<and>
   permuted 2 2 [[1, 3], [2, 4]] \<and>
   permuted 2 2 (fst (Reset [[1, 3], [2, 4]])) \<and>
   permuted 2 2 (fst (MakeMove [[1, 3], [2, 4]] \<lparr>Axis = HorizontalAxis, Index = 1, Amount = 1\<rparr>)) \<and>
   permuted 2 2 (fst (FastShuffle [[1, 3], [2, 4]] [1, 1, 0, 0])) \<and>
   permuted 2 2 (fst (Shuffle [[1, 3], [2, 4]] 1 [1, 1, 0, 0]))"
proof -
  have n: "NewBoard maxAlloc 2 2 = Returned (Inr [[1, 3], [2, 4]])"
    by (simp add: NewBoard_eq fits_def maxAlloc_def solved_def default_column_def upt_conv_Cons)
  have p: "permuted 2 2 [[1, 3], [2, 4]]"
    using permuted_invariant [of maxAlloc 2 2 "[[1, 3], [2, 4]]"] n by simp
  show ?thesis
    using n p permuted_invariant [of maxAlloc 2 2 "[[1, 3], [2, 4]]" 2 2 "[[1, 3], [2, 4]]"
        "\<lparr>Axis = HorizontalAxis, Index = 1, Amount = 1\<rparr>" "[1, 1, 0, 0]" 1]
    by simp
qed

section \<open>Where the program departs from its description\<close>

lemma pickOther_differs:
  "pickOther w h x1 y1 rs = (Returned (x2, y2), rs') \<Longrightarrow> x2 \<noteq> x1 \<and> y2 \<noteq> y1"
proof (induction w h x1 y1 rs rule: pickOther.induct)
  case (1 w h x1 y1 rs)
  obtain o1 rs1 where a: "Intn (int w) rs = (o1, rs1)" by (cases "Intn (int w) rs")
  show ?case
  proof (cases o1)
    case (Returned x)
    obtain o2 rs2 where b: "Intn (int h) rs1 = (o2, rs2)" by (cases "Intn (int h) rs1")
    show ?thesis
    proof (cases o2)
      case y: (Returned y)
      show ?thesis
      proof (cases "x1 = x \<or> y1 = y")
        case True
        then have "pickOther w h x1 y1 rs2 = (Returned (x2, y2), rs')"
          using "1.prems" a b Returned y by (subst (asm) pickOther.simps) simp
        then show ?thesis
          using "1.IH" [OF a [symmetric] Returned b [symmetric] y True] by simp
      next
        case False
        then show ?thesis
          using "1.prems" a b Returned y by (subst (asm) pickOther.simps) auto
      qed
    next
      case Panicked
      then show ?thesis using "1.prems" a b Returned by (subst (asm) pickOther.simps) simp
    next
      case Starved
      then show ?thesis using "1.prems" a b Returned by (subst (asm) pickOther.simps) simp
    qed
  next
    case Panicked
    then show ?thesis using "1.prems" a by (subst (asm) pickOther.simps) simp
  next
    case Starved
    then show ?thesis using "1.prems" a by (subst (asm) pickOther.simps) simp
  qed
qed

lemma MakeMove_scenarios:
  "MakeMove [[1, 4, 7], [2, 5, 8], [3, 6, 9]] \<lparr>Axis = HorizontalAxis, Index = 0, Amount = 1\<rparr>
     = ([[3, 4, 7], [1, 5, 8], [2, 6, 9]], Returned 1)"
  "MakeMove [[1, 6, 11, 16, 21], [2, 7, 12, 17, 22], [3, 8, 13, 18, 23], [4, 9, 14, 19, 24],
             [5, 10, 15, 20, 25]] \<lparr>Axis = VerticalAxis, Index = 0, Amount = 2\<rparr>
     = ([[16, 21, 1, 6, 11], [2, 7, 12, 17, 22], [3, 8, 13, 18, 23], [4, 9, 14, 19, 24],
         [5, 10, 15, 20, 25]], Returned 2)"
  by (simp_all add: MakeMove_def Abs_def shiftOnce_def tile_at_def in_board_def Width_def
        Height_def row_tiles_def column_tiles_def set_tile_def eval_nat_numeral upt_conv_Cons)

lemma MakeMove_fitting:
  assumes "rect w h b" "movable w h m" "sint (Amount m) \<noteq> - (2 ^ 63)"
  shows "MakeMove b m = ((unit_shift w h m ^^ nat \<bar>sint (Amount m)\<bar>) b, Returned (Abs (Amount m)))"
    and "sint (Abs (Amount m)) = \<bar>sint (Amount m)\<bar>"
proof -
  show a: "sint (Abs (Amount m)) = \<bar>sint (Amount m)\<bar>"
    using assms(3) by (simp add: Abs_def sint_uminus)
  show "MakeMove b m = ((unit_shift w h m ^^ nat \<bar>sint (Amount m)\<bar>) b, Returned (Abs (Amount m)))"
    using assms(2) a by (simp add: MakeMove_rect [OF assms(1)] steps_def)
qed

text \<open>
  C1. A Move that ParseMove accepts can make MakeMove panic: on the board of 3 columns
  and 2 rows, \<open>"1R2"\<close> is accepted, since a row index is checked against the width,
  and MakeMove then reads \<open>board[2][2]\<close> in a column of two tiles. And for the
  least \<open>int\<close> as amount, \<open>Abs\<close> returns that negative number: MakeMove rotates nothing
  and returns it.
\<close>

theorem MakeMove_accepted_move_panics:
  "NewBoard maxAlloc 3 2 = Returned (Inr [[1, 4], [2, 5], [3, 6]]) \<and>
   ParseMove beyond ''1R2'' [[1, 4], [2, 5], [3, 6]]
     = Returned (Inr \<lparr>Axis = HorizontalAxis, Index = 2, Amount = 1\<rparr>) \<and>
   MakeMove [[1, 4], [2, 5], [3, 6]] \<lparr>Axis = HorizontalAxis, Index = 2, Amount = 1\<rparr>
     = ([[1, 4], [2, 5], [3, 6]], Panicked) \<and>
   ParseMove beyond ''-9223372036854775808R0'' [[1, 4], [2, 5], [3, 6]]
     = Returned (Inr \<lparr>Axis = HorizontalAxis, Index = 0, Amount = - 9223372036854775808\<rparr>) \<and>
   MakeMove b \<lparr>Axis = HorizontalAxis, Index = 0, Amount = - 9223372036854775808\<rparr>
     = (b, Returned (- 9223372036854775808))"
proof (intro conjI)
  show "NewBoard maxAlloc 3 2 = Returned (Inr [[1, 4], [2, 5], [3, 6]])"
    by (simp add: NewBoard_eq fits_def maxAlloc_def solved_def default_column_def upt_conv_Cons)
  show "ParseMove beyond ''1R2'' [[1, 4], [2, 5], [3, 6]]
     = Returned (Inr \<lparr>Axis = HorizontalAxis, Index = 2, Amount = 1\<rparr>)"
    by (simp add: ParseMove_def Atoi_def digit_def decodeRune_def IsLetter_def latin1Letter_def
          axisOf_def checkIndex_def dimension_def Width_def)
  show "MakeMove [[1, 4], [2, 5], [3, 6]] \<lparr>Axis = HorizontalAxis, Index = 2, Amount = 1\<rparr>
     = ([[1, 4], [2, 5], [3, 6]], Panicked)"
    by (simp add: MakeMove_def Abs_def shiftOnce_def tile_at_def in_board_def Width_def)
  show "ParseMove beyond ''-9223372036854775808R0'' [[1, 4], [2, 5], [3, 6]]
     = Returned (Inr \<lparr>Axis = HorizontalAxis, Index = 0, Amount = - 9223372036854775808\<rparr>)"
    by (simp add: ParseMove_def Atoi_def digit_def decodeRune_def IsLetter_def latin1Letter_def
          axisOf_def checkIndex_def dimension_def Width_def)
  show "MakeMove b \<lparr>Axis = HorizontalAxis, Index = 0, Amount = - 9223372036854775808\<rparr>
     = (b, Returned (- 9223372036854775808))"
    by (simp add: MakeMove_def Abs_def)
qed

text \<open>
  C6. Shuffle replaces only \<open>iterations = 0\<close> by \<open>Width + Height\<close>. For a negative
  \<open>iterations\<close>, here \<open>-1\<close>, the loop does not run: no Move is made, no random number
  is drawn and the call returns 0.
\<close>

theorem Shuffle_negative_iterations:
  "Shuffle b (- 1) rs = (b, rs, Returned 0)"
  by (simp add: Shuffle_def)

text \<open>
  C7. FastShuffle draws again while the candidate has the column or the row of the
  tile itself. For the tile \<open>(0, 0)\<close> of a board of 3 by 3 and the draws 1, 0, 1, 1 the
  first candidate \<open>(1, 0)\<close>, a different tile, is refused and \<open>(1, 1)\<close> is taken.
\<close>

theorem pickOther_refuses_same_row:
  "pickOther 3 3 0 0 [1, 0, 1, 1] = (Returned (1, 1), [])"
  by (simp add: pickOther.simps Intn_def)

text \<open>
  C4. ParseMove looks for the first letter by byte offset and then indexes the
  code points of the input with that offset. For the three bytes of \<open>"\<section>R"\<close>
  (C2 A7 52) the letter \<open>R\<close> is at byte offset 2 and the input has two code points:
  the call panics instead of returning an error.
\<close>

theorem ParseMove_panics_after_wide_character:
  "ParseMove beyond [CHR 0xC2, CHR 0xA7, CHR ''R''] board = Panicked \<and>
   ParseMove beyond [CHR 0xC2, CHR 0xA7, CHR ''r''] board = Panicked"
  by (simp add: ParseMove_def decodeRune_def leading_def IsLetter_def latin1Letter_def)

section \<open>Parsing\<close>

subsection \<open>Dimensions\<close>

lemma IndexAny_none: "set s \<inter> set chars = {} \<Longrightarrow> IndexAny s chars = None"
  by (induction s) auto

lemma IndexAny_first:
  "set pre \<inter> set chars = {} \<Longrightarrow> c \<in> set chars \<Longrightarrow>
   IndexAny (pre @ c # post) chars = Some (length pre)"
  by (induction pre) auto

text \<open>
  C8 (amended). ParseTwoDimensions fails with the empty-input error on the empty
  string. A non-empty input with none of \<open>x\<close>, \<open>X\<close>, \<open>*\<close> fails with NoSeparator. An input
  is split at the first of these characters: what is before it has to parse as the
  width (InvalidWidth otherwise), what is after it as the height (InvalidHeight
  otherwise), and no bound is put on either number.
\<close>

theorem ParseTwoDimensions_splits:
  "ParseTwoDimensions [] = Inl EmptyDimensions \<and>
   (input \<noteq> [] \<and> set input \<inter> set ''xX*'' = {} \<longrightarrow> ParseTwoDimensions input = Inl NoSeparator) \<and>
   (set pre \<inter> set ''xX*'' = {} \<and> s \<in> set ''xX*'' \<longrightarrow>
      ParseTwoDimensions (pre @ s # post) =
        (case Atoi pre of
           None \<Rightarrow> Inl InvalidWidth
         | Some width \<Rightarrow>
             (case Atoi post of
                None \<Rightarrow> Inl InvalidHeight
              | Some height \<Rightarrow> Inr (width, height)))) \<and>
   ParseTwoDimensions ''5x5'' = Inr (5, 5) \<and> ParseTwoDimensions ''5X5'' = Inr (5, 5) \<and>
   ParseTwoDimensions ''5*5'' = Inr (5, 5) \<and> ParseTwoDimensions ''5-5'' = Inl NoSeparator \<and>
   ParseTwoDimensions ''1x-3'' = Inr (1, - 3)"
proof (intro conjI impI)
  show "ParseTwoDimensions [] = Inl EmptyDimensions"
    by (simp add: ParseTwoDimensions_def)
  show "ParseTwoDimensions input = Inl NoSeparator"
    if "input \<noteq> [] \<and> set input \<inter> set ''xX*'' = {}"
    using that IndexAny_none [of input "''xX*''"] by (simp add: ParseTwoDimensions_def)
  show "ParseTwoDimensions (pre @ s # post) =
        (case Atoi pre of
           None \<Rightarrow> Inl InvalidWidth
         | Some width \<Rightarrow>
             (case Atoi post of
                None \<Rightarrow> Inl InvalidHeight
              | Some height \<Rightarrow> Inr (width, height)))"
    if "set pre \<inter> set ''xX*'' = {} \<and> s \<in> set ''xX*''"
    using that IndexAny_first [of pre "''xX*''" s post]
    by (simp add: ParseTwoDimensions_def split: option.split)
qed (simp_all add: ParseTwoDimensions_def Atoi_def digit_def)

theorem ParseTwoDimensions_splits_witness:
  "ParseTwoDimensions ''12'' = Inl NoSeparator \<and>
   ParseTwoDimensions ''4x3*2'' = Inl InvalidHeight \<and>
   ParseTwoDimensions ''4x3'' = Inr (4, 3) \<and>
   ParseTwoDimensions ''x3'' = Inl InvalidWidth"
  using ParseTwoDimensions_splits [of "''12''" "''4''" "CHR ''x''" "''3*2''"]
    ParseTwoDimensions_splits [of "''12''" "''4''" "CHR ''x''" "''3''"]
    ParseTwoDimensions_splits [of "''12''" "[]" "CHR ''x''" "''3''"]
  by (simp add: Atoi_def digit_def)

theorem ParseTwoDimensions_empty_counterexample:
  "set '''' \<inter> set ''xX*'' = {} \<and> ParseTwoDimensions '''' \<noteq> Inl NoSeparator"
  by (simp add: ParseTwoDimensions_def)

subsection \<open>Moves with a reversed index\<close>

lemma digit_Some: "digit c = Some d \<Longrightarrow> 48 \<le> (of_char c :: nat) \<and> (of_char c :: nat) \<le> 57"
  by (simp add: digit_def Let_def split: if_splits)

lemma digits_Some:
  "digits acc ds = Some n \<Longrightarrow> \<forall>c \<in> set ds. 48 \<le> (of_char c :: nat) \<and> (of_char c :: nat) \<le> 57"
  by (induction ds arbitrary: acc) (auto split: option.splits dest: digit_Some)

lemma Atoi_Some:
  assumes "Atoi s = Some a"
  shows "s \<noteq> [] \<and> (\<forall>c \<in> set s. (of_char c :: nat) \<in> {43, 45} \<union> {48..57})"
proof (cases s)
  case Nil
  then show ?thesis using assms by (simp add: Atoi_def)
next
  case (Cons c cs)
  let ?ds = "if c = CHR ''-'' \<or> c = CHR ''+'' then cs else s"
  from assms Cons obtain n where n: "digits 0 ?ds = Some n"
    by (auto simp: Atoi_def Let_def split: if_splits option.splits)
  have ds: "\<forall>c \<in> set ?ds. 48 \<le> (of_char c :: nat) \<and> (of_char c :: nat) \<le> 57"
    using n by (rule digits_Some)
  show ?thesis
  proof (cases "c = CHR ''-'' \<or> c = CHR ''+''")
    case True
    then have "(of_char c :: nat) \<in> {43, 45}" by auto
    then show ?thesis using ds True Cons by auto
  next
    case False
    then show ?thesis using ds Cons by auto
  qed
qed

lemma find_append_skip: "\<forall>x \<in> set xs. \<not> P x \<Longrightarrow> find P (xs @ ys) = find P ys"
  by (induction xs) auto

lemma decodeRune_ascii: "s0 < 0x80 \<Longrightarrow> decodeRune (s0 # t) = (s0, 1)"
  by (simp add: decodeRune_def)

lemma rangeString_ascii:
  "\<forall>c \<in> set pre. (of_char c :: nat) < 0x80 \<Longrightarrow>
   rangeString i 0 (map of_char pre @ rest)
   = List.enumerate i (map of_char pre) @ rangeString (i + length pre) 0 rest"
proof (induction pre arbitrary: i)
  case Nil
  then show ?case by simp
next
  case (Cons c pre)
  have "rangeString i 0 (map of_char (c # pre) @ rest)
        = (i, of_char c) # rangeString (Suc i) 0 (map of_char pre @ rest)"
    using Cons.prems by (simp add: decodeRune_ascii)
  also have "rangeString (Suc i) 0 (map of_char pre @ rest)
        = List.enumerate (Suc i) (map of_char pre) @ rangeString (Suc i + length pre) 0 rest"
    using Cons.prems by (intro Cons.IH) simp
  finally show ?case by simp
qed

lemma axisOf_Some: "axisOf r = Some a \<Longrightarrow> r < 0x80 \<and> latin1Letter r"
  by (auto simp: axisOf_def latin1Letter_def split: if_splits)

lemma rangeString_ascii_runes:
  fixes pre :: string
  assumes "\<forall>ch \<in> set pre. (of_char ch :: nat) < 0x80"
  shows "rangeString 0 0 (map of_char pre) = List.enumerate 0 (map of_char pre)"
  using rangeString_ascii [OF assms, of 0 "[]"] by simp

lemma ParseMove_no_letter:
  assumes "input \<noteq> []"
    and "\<forall>ch \<in> set input. (of_char ch :: nat) < 0x80 \<and> \<not> latin1Letter (of_char ch)"
  shows "ParseMove beyond input board = Returned (Inl MissingAxis)"
proof -
  have ascii: "\<forall>ch \<in> set input. (of_char ch :: nat) < 0x80" using assms(2) by simp
  have "\<not> IsLetter beyond r" if "(i, r) \<in> set (List.enumerate 0 (map of_char input))" for i r
  proof -
    from that have "r \<in> of_char ` set input" by (auto simp: in_set_enumerate_eq)
    then show ?thesis using assms(2) by (auto simp: IsLetter_def)
  qed
  then have "find (\<lambda>(i, c). IsLetter beyond c) (List.enumerate 0 (map of_char input)) = None"
    by (auto simp: find_None_iff)
  then show ?thesis
    using assms(1) by (simp add: ParseMove_def rangeString_ascii_runes [OF ascii])
qed

lemma ParseMove_ascii:
  fixes pre post :: string
  assumes pre: "\<forall>ch \<in> set pre. (of_char ch :: nat) < 0x80 \<and> \<not> latin1Letter (of_char ch)"
    and c: "(of_char c :: nat) < 0x80" "latin1Letter (of_char c)"
  shows "ParseMove beyond (pre @ c # post) board =
     (case axisOf (of_char c) of
        None \<Rightarrow> Returned (Inl InvalidAxis)
      | Some axis \<Rightarrow>
          if pre = [] then Returned (Inl MissingAmount)
          else
            (case Atoi pre of
               None \<Rightarrow> Returned (Inl InvalidAmount)
             | Some amount \<Rightarrow>
                 if amount = 0 then Returned (Inl ZeroAmount)
                 else if post = [] then Returned (Inl MissingIndex)
                 else
                   (case Atoi (if last post = CHR 0x27 then butlast post else post) of
                      None \<Rightarrow> Returned (Inl InvalidIndex)
                    | Some index \<Rightarrow>
                        checkIndex board axis amount index (last post = CHR 0x27))))"
proof -
  let ?n = "length pre"
  let ?runes = "rangeString 0 0 (map of_char (pre @ c # post))"
  let ?pre = "List.enumerate 0 (map of_char pre) :: (nat \<times> nat) list"
  have ascii: "\<forall>ch \<in> set pre. (of_char ch :: nat) < 0x80" using pre by simp
  have "?runes = ?pre @ rangeString ?n 0 (of_char c # map of_char post)"
    using rangeString_ascii [OF ascii, of 0 "of_char c # map of_char post"] by simp
  then have runes: "?runes = ?pre @ (?n, of_char c) # rangeString (Suc ?n) 0 (map of_char post)"
    using c(1) by (simp add: decodeRune_ascii)
  have "\<not> IsLetter beyond r" if "(i, r) \<in> set ?pre" for i r
  proof -
    from that have "r \<in> of_char ` set pre" by (auto simp: in_set_enumerate_eq)
    then show ?thesis using pre by (auto simp: IsLetter_def)
  qed
  then have none: "\<forall>x \<in> set ?pre. \<not> (\<lambda>(i, c). IsLetter beyond c) x" by auto
  have letter: "IsLetter beyond (of_char c)" using c by (simp add: IsLetter_def)
  have f: "find (\<lambda>(i, c). IsLetter beyond c) ?runes = Some (?n, of_char c)"
    unfolding runes using letter by (simp add: find_append_skip [OF none])
  have len: "length ?pre = ?n" by simp
  have lt: "?n < length ?runes" unfolding runes by simp
  have nth: "?runes ! ?n = (?n, of_char c)"
    unfolding runes using len by (metis nth_append_length)
  have l: "post \<noteq> [] \<Longrightarrow> last (pre @ c # post) = last post" by simp
  show ?thesis
    unfolding ParseMove_def Let_def
    using f lt nth l
    by (simp split: option.split)
qed

lemma Atoi_plain:
  assumes "Atoi s = Some a"
  shows "\<forall>ch \<in> set s. (of_char ch :: nat) < 0x80 \<and> \<not> latin1Letter (of_char ch)"
proof
  fix ch assume "ch \<in> set s"
  then have "(of_char ch :: nat) \<in> {43, 45} \<union> {48..57}"
    using Atoi_Some [OF assms] by simp
  then show "(of_char ch :: nat) < 0x80 \<and> \<not> latin1Letter (of_char ch)"
    by (auto simp: latin1Letter_def)
qed

lemma ParseMove_plain_index:
  assumes "Atoi amountStr = Some amount" and "amount \<noteq> 0"
    and "axisOf (of_char c) = Some axis"
    and "indexStr \<noteq> []" and "last indexStr \<noteq> CHR 0x27"
  shows "ParseMove beyond (amountStr @ c # indexStr) board =
     (case Atoi indexStr of
        None \<Rightarrow> Returned (Inl InvalidIndex)
      | Some index \<Rightarrow>
          if sint index < 0 then Returned (Inl IndexBelowZero)
          else (case dimension board axis of
                  None \<Rightarrow> Panicked
                | Some d \<Rightarrow>
                    if sint d \<le> sint index then Returned (Inl IndexTooLarge)
                    else Returned (Inr \<lparr>Axis = axis, Index = index, Amount = amount\<rparr>)))"
proof -
  from Atoi_Some [OF assms(1)] have ne: "amountStr \<noteq> []" by simp
  from axisOf_Some [OF assms(3)] have c: "(of_char c :: nat) < 0x80" "latin1Letter (of_char c)"
    by simp_all
  show ?thesis
    using assms ne
    by (simp add: ParseMove_ascii [OF Atoi_plain [OF assms(1)] c] checkIndex_def
          split: option.split)
qed

text \<open>
  C5 (amended). For an input that ends in an apostrophe and whose amount and axis are
  accepted, ParseMove parses the index from what stands between the axis letter and
  the apostrophe. If that does not parse, and so if it is empty, the call fails with the
  invalid-index error (not the missing-index one). Otherwise the index \<open>i\<close> is replaced
  by \<open>dimension - 1 - i\<close>, in 64-bit arithmetic, with the width as dimension for a
  row and the height for a column, before the two bounds checks.
\<close>

theorem ParseMove_reverse_index:
  assumes "Atoi amountStr = Some amount" and "amount \<noteq> 0"
    and "axisOf (of_char c) = Some axis"
  shows "ParseMove beyond (amountStr @ c # indexStr @ [CHR 0x27]) board =
     (case Atoi indexStr of
        None \<Rightarrow> Returned (Inl InvalidIndex)
      | Some index \<Rightarrow>
          (case dimension board axis of
             None \<Rightarrow> Panicked
           | Some d \<Rightarrow>
               if sint (d - 1 - index) < 0 then Returned (Inl IndexBelowZero)
               else if sint d \<le> sint (d - 1 - index) then Returned (Inl IndexTooLarge)
               else Returned (Inr \<lparr>Axis = axis, Index = d - 1 - index, Amount = amount\<rparr>)))"
proof -
  from Atoi_Some [OF assms(1)] have ne: "amountStr \<noteq> []" by simp
  from axisOf_Some [OF assms(3)] have c: "(of_char c :: nat) < 0x80" "latin1Letter (of_char c)"
    by simp_all
  show ?thesis
    using assms ne
    by (simp add: ParseMove_ascii [OF Atoi_plain [OF assms(1)] c] checkIndex_def
          split: option.split)
qed

theorem ParseMove_reverse_index_witness:
  "Atoi ''1'' = Some 1 \<and> axisOf (of_char CHR ''R'') = Some HorizontalAxis \<and>
   ParseMove noLettersBeyond (''1R0'' @ [CHR 0x27])
     [[1, 6, 11, 16, 21], [2, 7, 12, 17, 22], [3, 8, 13, 18, 23], [4, 9, 14, 19, 24],
      [5, 10, 15, 20, 25]]
   = Returned (Inr \<lparr>Axis = HorizontalAxis, Index = 4, Amount = 1\<rparr>)"
proof -
  have a: "Atoi ''1'' = Some 1" by (simp add: Atoi_def digit_def)
  have x: "axisOf (of_char CHR ''R'') = Some HorizontalAxis" by (simp add: axisOf_def)
  have i: "Atoi ''0'' = Some 0" by (simp add: Atoi_def digit_def)
  show ?thesis
    using a x ParseMove_reverse_index [OF a _ x, of noLettersBeyond "''0''"
        "[[1, 6, 11, 16, 21], [2, 7, 12, 17, 22], [3, 8, 13, 18, 23], [4, 9, 14, 19, 24],
          [5, 10, 15, 20, 25]]"]
    by (simp add: i dimension_def Width_def)
qed

theorem ParseMove_bare_apostrophe_counterexample:
  "ParseMove noLettersBeyond (''1R'' @ [CHR 0x27]) [[1, 3], [2, 4]] = Returned (Inl InvalidIndex) \<and>
   ParseMove noLettersBeyond (''1R'' @ [CHR 0x27]) [[1, 3], [2, 4]] \<noteq> Returned (Inl MissingIndex)"
  by (simp add: ParseMove_def Atoi_def digit_def decodeRune_def IsLetter_def latin1Letter_def
        axisOf_def)

end
